theory Spec2Isabelle
  imports Complex_Main
begin

section \<open>JavaScript values used by the submission pipeline\<close>

text \<open>
  The pipeline lives in \<^verbatim>\<open>src/app/submit-report/submit-report.ts\<close> (class
  \<^verbatim>\<open>SubmitReport\<close>), the report store in \<^verbatim>\<open>ReportsService\<close> and the workflow
  operations in the \<^verbatim>\<open>AdminDashboard\<close> components.

  JavaScript numbers are IEEE 754 doubles. A number is modelled by the rational it
  denotes; byte counts, pixel sizes and percentages are integers. A double has a
  significand of 53 bits: \<open>double x\<close> is the double nearest to \<open>x\<close>, a tie going to the even
  significand. The binade \<open>e\<close> of \<open>\<bar>x\<bar>\<close>, with \<open>pow2 e \<le> \<bar>x\<bar> < pow2 (e + 1)\<close>, is found by
  halving or doubling, and \<open>\<bar>x\<bar>\<close> is rounded to a multiple of \<open>pow2 (e - 52)\<close>. Overflow to
  an infinity, the subnormal numbers and a division by zero are not modelled; the
  qualities, sizes and percentages of the pipeline are far from all three.
\<close>

definition pow2 :: "int \<Rightarrow> rat" where
  "pow2 e = (if 0 \<le> e then 2 ^ nat e else 1 / 2 ^ nat (- e))"

fun binade :: "nat \<Rightarrow> rat \<Rightarrow> int" where
  "binade 0 x = 0"
| "binade (Suc k) x =
     (if 2 \<le> x then binade k (x / 2) + 1 else if x < 1 then binade k (x * 2) - 1 else 0)"

definition round_even :: "rat \<Rightarrow> int" where
  "round_even y =
     (let n = \<lfloor>y\<rfloor>; r = y - of_int n
      in if r < 1 / 2 then n else if 1 / 2 < r then n + 1 else if even n then n else n + 1)"

definition double :: "rat \<Rightarrow> rat" where
  "double x =
     (if x = 0 then 0
      else let u = pow2 (binade 1100 \<bar>x\<bar> - 52)
           in sgn x * of_int (round_even (\<bar>x\<bar> / u)) * u)"

text \<open>The operators \<^verbatim>\<open>+\<close>, \<^verbatim>\<open>*\<close> and \<^verbatim>\<open>/\<close> give the double nearest to the exact result. A
  numeric literal such as \<^verbatim>\<open>0.4\<close> is the double nearest to it.\<close>

definition js_add :: "rat \<Rightarrow> rat \<Rightarrow> rat" where
  "js_add a b = double (a + b)"

definition js_mul :: "rat \<Rightarrow> rat \<Rightarrow> rat" where
  "js_mul a b = double (a * b)"

definition js_div :: "rat \<Rightarrow> rat \<Rightarrow> rat" where
  "js_div a b = double (a / b)"

text \<open>\<^verbatim>\<open>Math.round\<close> gives the integer nearest to a number, a tie going up.\<close>

definition Math_round :: "rat \<Rightarrow> int" where
  "Math_round x = \<lfloor>x + 1 / 2\<rfloor>"

text \<open>A \<^verbatim>\<open>Blob\<close> shows the code its byte size and media type; a \<^verbatim>\<open>File\<close> is a
  \<^verbatim>\<open>Blob\<close> with a name.\<close>

record blob =
  blob_size :: nat
  blob_type :: string

record File = blob +
  file_name :: string

text \<open>Handles returned by \<^verbatim>\<open>URL.createObjectURL\<close> are opaque; they are numbered in the
  order of their creation.\<close>

type_synonym object_url = nat

datatype level = Warning | Error | Success

text \<open>The document written by \<^verbatim>\<open>addDoc\<close>. A field the code does not write is absent
  from the stored document (\<open>None\<close>). The field \<^verbatim>\<open>createdAt\<close>, a timestamp the server
  fills in, is left out.\<close>

datatype status = Pending | In_Progress | Done

record report_doc =
  doc_type :: string
  doc_location :: string
  doc_date :: string
  doc_time :: string
  doc_description :: string
  doc_images :: "string list"
  doc_reporterId :: string
  doc_reporterName :: string
  doc_barangayId :: "string option"
  doc_status :: status
  doc_upvotes :: nat
  doc_approved :: "bool option"

text \<open>Every call that leaves the component is recorded, in order. Beside the log the
  world holds the two stores: the \<^verbatim>\<open>reports\<close> collection, documents under
  store-assigned identifiers, and the objects of the blob store by path.\<close>

datatype io_event =
    CreateObjectURL object_url
  | RevokeObjectURL object_url
  | LoadImage File
  | ToBlob int int rat
  | UploadBytes string File
  | GetDownloadURL string
  | DeleteObject string
  | AddDoc report_doc
  | Notify level string string
  | Navigate string

type_synonym collection = "(string \<times> report_doc) list"

record world =
  io_log :: "io_event list"
  url_count :: nat
  reports_col :: collection
  storage :: "string \<rightharpoonup> File"

definition emit :: "io_event \<Rightarrow> world \<Rightarrow> world" where
  "emit e w = w\<lparr>io_log := io_log w @ [e]\<rparr>"

definition createObjectURL :: "world \<Rightarrow> object_url \<times> world" where
  "createObjectURL w =
     (url_count w, emit (CreateObjectURL (url_count w)) (w\<lparr>url_count := Suc (url_count w)\<rparr>))"

definition revokeObjectURL :: "object_url \<Rightarrow> world \<Rightarrow> world" where
  "revokeObjectURL u w = emit (RevokeObjectURL u) w"

section \<open>The image normalizer: \<^verbatim>\<open>compressImage\<close>\<close>

text \<open>What the browser answers: the decoded size of an image (\<open>None\<close> when \<^verbatim>\<open>onerror\<close>
  fires), whether a 2d context exists, and the JPEG the canvas encodes at a quality
  (\<open>None\<close> when \<^verbatim>\<open>toBlob\<close> yields \<^verbatim>\<open>null\<close>).\<close>

record browser =
  image_size :: "File \<Rightarrow> (int \<times> int) option"
  getContext :: "File \<Rightarrow> bool"
  canvas_toBlob :: "File \<Rightarrow> int \<Rightarrow> int \<Rightarrow> rat \<Rightarrow> blob option"

datatype error = ImageLoadError | UploadError | DownloadURLError | StoreError | NavigationError

text \<open>Lines 573 to 575: the scale factor and the canvas size. The maximal width is a
  whole number of pixels (the one call passes none and takes the default 1280).\<close>

definition scale_of :: "int \<Rightarrow> int \<Rightarrow> rat" where
  "scale_of iw maxWidth = (if iw > maxWidth then js_div (of_int maxWidth) (of_int iw) else 1)"

definition canvas_size :: "int \<Rightarrow> int \<Rightarrow> int \<Rightarrow> int \<times> int" where
  "canvas_size iw ih maxWidth =
     (let scale = scale_of iw maxWidth;
          nw = Math_round (js_mul (of_int iw) scale);
          nh = Math_round (js_mul (of_int ih) scale)
      in (nw, nh))"

text \<open>Lines 590 to 609: the loop \<^verbatim>\<open>for (let i = 0; i < 7; i++)\<close>, with \<open>n = 7 - i\<close>
  iterations left. The list collects the qualities handed to \<^verbatim>\<open>toBlob\<close>.\<close>

fun quality_search ::
  "(rat \<Rightarrow> blob option) \<Rightarrow> nat \<Rightarrow> nat \<Rightarrow> nat \<Rightarrow> rat \<Rightarrow> rat \<Rightarrow> blob option \<Rightarrow> rat list
     \<Rightarrow> blob option \<times> rat list" where
  "quality_search toBlob minBytes maxBytes 0 low high bestBlob qs = (bestBlob, qs)"
| "quality_search toBlob minBytes maxBytes (Suc n) low high bestBlob qs =
     (let q = js_div (js_add low high) 2 in
      case toBlob q of
        None \<Rightarrow> (bestBlob, qs @ [q])
      | Some blob \<Rightarrow>
          if blob_size blob > maxBytes then
            quality_search toBlob minBytes maxBytes n low q (Some blob) (qs @ [q])
          else if blob_size blob < minBytes then
            quality_search toBlob minBytes maxBytes n q high (Some blob) (qs @ [q])
          else (Some blob, qs @ [q]))"

text \<open>Line 615: \<^verbatim>\<open>file.name.replace(/\.[^/.]+$/, '')\<close> removes the last dot and what
  follows it, when at least one character follows and none of them is a slash.\<close>

definition strip_extension :: "string \<Rightarrow> string" where
  "strip_extension s =
     (let ext = takeWhile (\<lambda>c. c \<noteq> CHR ''.'') (rev s) in
      if length ext < length s \<and> ext \<noteq> [] \<and> CHR ''/'' \<notin> set ext
      then take (length s - length ext - 1) s else s)"

definition new_File :: "blob \<Rightarrow> string \<Rightarrow> string \<Rightarrow> File" where
  "new_File b name ty = \<lparr>blob_size = blob_size b, blob_type = ty, file_name = name\<rparr>"

definition compressImage ::
  "browser \<Rightarrow> File \<Rightarrow> int \<Rightarrow> nat \<Rightarrow> nat \<Rightarrow> world \<Rightarrow> (error + File) \<times> world" where
  "compressImage br f maxWidth targetMinKB targetMaxKB w0 =
     (let (url, w1) = createObjectURL w0;
          w2 = emit (LoadImage f) w1 in
      case image_size br f of
        None \<Rightarrow> (Inl ImageLoadError, w2)
      | Some (iw, ih) \<Rightarrow>
          let (nw, nh) = canvas_size iw ih maxWidth in
          if \<not> getContext br f then (Inr f, w2)
          else
            let minBytes = targetMinKB * 1024;
                maxBytes = targetMaxKB * 1024;
                (bestBlob, qs) =
                  quality_search (canvas_toBlob br f nw nh) minBytes maxBytes 7
                    (double (2 / 5)) (double (19 / 20)) None [];
                w3 = w2\<lparr>io_log := io_log w2 @ map (ToBlob nw nh) qs\<rparr>
            in case bestBlob of
                 None \<Rightarrow> (Inr f, w3)
               | Some b \<Rightarrow>
                   (Inr (new_File b (strip_extension (file_name f) @ ''.jpg'') ''image/jpeg''),
                    revokeObjectURL url w3))"

section \<open>The report store: \<^verbatim>\<open>ReportsService\<close>\<close>

record AppUser =
  uid :: string
  email :: "string option"
  barangay :: string

record payload =
  p_type :: string
  p_location :: string
  p_description :: string
  p_imageUrls :: "string list"
  p_dateTaken :: string
  p_timeTaken :: string
  p_barangayId :: string

text \<open>What the services answer: the signed-in user (the first value of \<^verbatim>\<open>user$\<close>), the
  clock at the start of upload \<open>idx\<close>, the locale strings of the current date, the
  rendering of a coordinate with six decimals, how an upload to a path proceeds (its
  progress snapshots, then whether it completes), the download URL of a path (\<open>None\<close> when
  the request fails), whether the store accepts a write, the identifier it assigns, and
  whether the router navigates.\<close>

record snapshot =
  bytesTransferred :: nat
  totalBytes :: nat

record backend =
  current_user :: "AppUser option"
  Date_now :: "nat \<Rightarrow> nat"
  toLocaleDateString :: string
  toLocaleTimeString :: string
  toFixed6 :: "rat \<Rightarrow> string"
  upload_run :: "string \<Rightarrow> File \<Rightarrow> snapshot list \<times> bool"
  getDownloadURL :: "string \<Rightarrow> string option"
  store_accepts :: "report_doc \<Rightarrow> bool"
  auto_id :: string
  navigate_ok :: bool

text \<open>The operator \<^verbatim>\<open>a || b\<close> on strings: the empty string is falsy.\<close>

definition or_else :: "string \<Rightarrow> string \<Rightarrow> string" where
  "or_else a b = (if a \<noteq> [] then a else b)"

text \<open>\<^verbatim>\<open>saveReportWithUrls\<close>: the document and the \<^verbatim>\<open>addDoc\<close> call.\<close>

definition newReport :: "backend \<Rightarrow> AppUser \<Rightarrow> payload \<Rightarrow> report_doc" where
  "newReport be user p =
     \<lparr>doc_type = p_type p,
      doc_location = p_location p,
      doc_date = or_else (p_dateTaken p) (toLocaleDateString be),
      doc_time = or_else (p_timeTaken p) (toLocaleTimeString be),
      doc_description = p_description p,
      doc_images = p_imageUrls p,
      doc_reporterId = uid user,
      doc_reporterName = (case email user of None \<Rightarrow> ''Anonymous'' | Some e \<Rightarrow> or_else e ''Anonymous''),
      doc_barangayId =
        (if p_barangayId p \<noteq> [] then Some (p_barangayId p)
         else if barangay user \<noteq> [] then Some (barangay user) else None),
      doc_status = Pending,
      doc_upvotes = 0,
      doc_approved = None\<rparr>"

definition saveReportWithUrls :: "backend \<Rightarrow> AppUser \<Rightarrow> payload \<Rightarrow> world \<Rightarrow> (error + unit) \<times> world" where
  "saveReportWithUrls be user p w =
     (let d = newReport be user p;
          w1 = emit (AddDoc d) w in
      if store_accepts be d
      then (Inr (), w1\<lparr>reports_col := reports_col w1 @ [(auto_id be, d)]\<rparr>)
      else (Inl StoreError, w1))"

section \<open>The component \<^verbatim>\<open>SubmitReport\<close>\<close>

record report_form =
  form_type :: string
  form_location :: string
  form_description :: string
  form_images :: "File list"
  form_dateTaken :: string
  form_timeTaken :: string
  form_lat :: "rat option"
  form_lng :: "rat option"

record component =
  report :: report_form
  userBarangay_name :: "string option"
  previews :: "object_url list"
  progressTotal :: nat
  progressUploaded :: nat
  progressPercent :: int
  uploading :: bool
  overallPercent :: int
  progressPerImage :: "int list"
  maxFiles :: nat

text \<open>The field initialisers of the class (lines 25 to 80).\<close>

definition initial_component :: component where
  "initial_component =
     \<lparr>report = \<lparr>form_type = [], form_location = [], form_description = [], form_images = [],
                 form_dateTaken = [], form_timeTaken = [], form_lat = None, form_lng = None\<rparr>,
      userBarangay_name = None, previews = [], progressTotal = 0, progressUploaded = 0,
      progressPercent = 0, uploading = False, overallPercent = 0, progressPerImage = [],
      maxFiles = 3\<rparr>"

subsection \<open>Selecting files\<close>

fun revoke_all :: "object_url list \<Rightarrow> world \<Rightarrow> world" where
  "revoke_all [] w = w"
| "revoke_all (u # us) w = revoke_all us (revokeObjectURL u w)"

fun create_all :: "File list \<Rightarrow> world \<Rightarrow> object_url list \<times> world" where
  "create_all [] w = ([], w)"
| "create_all (f # fs) w =
     (let (u, w1) = createObjectURL w; (us, w2) = create_all fs w1 in (u # us, w2))"

text \<open>\<^verbatim>\<open>onFileChange\<close> (lines 481 to 492); \<open>files\<close> is \<^verbatim>\<open>event?.target?.files ?? null\<close>.\<close>

definition onFileChange :: "File list option \<Rightarrow> component \<Rightarrow> world \<Rightarrow> component \<times> world" where
  "onFileChange files c w =
     (let w1 = revoke_all (previews c) w;
          c1 = c\<lparr>previews := []\<rparr>;
          arr = (case files of Some fs \<Rightarrow> fs | None \<Rightarrow> []);
          c2 = c1\<lparr>report := (report c1)\<lparr>form_images := take (maxFiles c1) arr\<rparr>\<rparr>;
          (c3, w3) =
            (if length (form_images (report c2)) \<noteq> 0
             then (let (us, w2) = create_all (form_images (report c2)) w1 in (c2\<lparr>previews := us\<rparr>, w2))
             else (c2, w1))
      in (c3\<lparr>progressPerImage := replicate (length (form_images (report c3))) 0\<rparr>, w3))"

text \<open>\<^verbatim>\<open>onDrop\<close> (lines 499 to 509); \<open>items\<close> is \<^verbatim>\<open>e.dataTransfer?.files\<close>.\<close>

definition onDrop :: "File list option \<Rightarrow> component \<Rightarrow> world \<Rightarrow> component \<times> world" where
  "onDrop items c w =
     (case items of
        None \<Rightarrow> (c, w)
      | Some fs \<Rightarrow>
          let arr = take (maxFiles c) fs;
              c1 = c\<lparr>report := (report c)\<lparr>form_images := arr\<rparr>\<rparr>;
              w1 = revoke_all (previews c1) w;
              (us, w2) = create_all (form_images (report c1)) w1;
              c2 = c1\<lparr>previews := us\<rparr>
          in (c2\<lparr>progressPerImage := replicate (length (form_images (report c2))) 0\<rparr>, w2))"

subsection \<open>Uploading one file: \<^verbatim>\<open>uploadSingle\<close>\<close>

text \<open>An assignment \<^verbatim>\<open>xs[i] = v\<close> beyond the end extends a JavaScript array; the holes it
  leaves are skipped by \<^verbatim>\<open>reduce\<close>, as a zero is by the sum.\<close>

definition js_set :: "int list \<Rightarrow> nat \<Rightarrow> int \<Rightarrow> int list" where
  "js_set xs i v = (if i < length xs then xs[i := v] else xs @ replicate (i - length xs) 0 @ [v])"

definition reduce_sum :: "int list \<Rightarrow> int" where
  "reduce_sum xs = foldl (\<lambda>s p. s + p) 0 xs"

text \<open>Lines 679 to 684, the \<^verbatim>\<open>state_changed\<close> observer.\<close>

definition snapshot_percent :: "snapshot \<Rightarrow> int" where
  "snapshot_percent sn =
     Math_round (js_mul (js_div (of_nat (bytesTransferred sn))
                                (of_nat (if totalBytes sn = 0 then 1 else totalBytes sn))) 100)"

definition on_state_changed :: "nat \<Rightarrow> nat \<Rightarrow> component \<Rightarrow> snapshot \<Rightarrow> component" where
  "on_state_changed totalFiles idx c sn =
     (let percent = snapshot_percent sn;
          c1 = c\<lparr>progressPerImage := js_set (progressPerImage c) idx percent\<rparr>;
          sum = reduce_sum (progressPerImage c1)
      in c1\<lparr>overallPercent := Math_round (js_div (of_int sum) (of_nat totalFiles))\<rparr>)"

text \<open>Lines 692 to 699, the completion observer once the download URL is known.\<close>

definition on_complete :: "nat \<Rightarrow> nat \<Rightarrow> component \<Rightarrow> component" where
  "on_complete totalFiles idx c =
     (let c1 = c\<lparr>progressPerImage := js_set (progressPerImage c) idx 100\<rparr>;
          sum = reduce_sum (progressPerImage c1);
          c2 = c1\<lparr>overallPercent := Math_round (js_div (of_int sum) (of_nat totalFiles))\<rparr>;
          c3 = c2\<lparr>progressUploaded := progressUploaded c2 + 1\<rparr>
      in if progressUploaded c3 \<le> totalFiles
         then c3\<lparr>progressPercent :=
                   Math_round (js_mul (js_div (of_nat (progressUploaded c3))
                                              (of_nat (max 1 totalFiles))) 100)\<rparr>
         else c3)"

text \<open>The decimal digits of a number, for the path of line 673.\<close>

definition digit :: "nat \<Rightarrow> char" where
  "digit d = ''0123456789'' ! d"

fun show_nat :: "nat \<Rightarrow> string" where
  "show_nat n = (if n < 10 then [digit n] else show_nat (n div 10) @ [digit (n mod 10)])"

definition upload_path :: "backend \<Rightarrow> AppUser \<Rightarrow> nat \<Rightarrow> File \<Rightarrow> string" where
  "upload_path be user idx f =
     ''reports/'' @ uid user @ ''/'' @ show_nat (Date_now be idx) @ ''_'' @ file_name f"

definition uploadSingle ::
  "backend \<Rightarrow> AppUser \<Rightarrow> nat \<Rightarrow> File \<Rightarrow> nat \<Rightarrow> component \<Rightarrow> world
     \<Rightarrow> (error + string) \<times> component \<times> world" where
  "uploadSingle be user totalFiles f idx c w =
     (let path = upload_path be user idx f;
          w1 = emit (UploadBytes path f) w;
          (snaps, completes) = upload_run be path f;
          c1 = foldl (on_state_changed totalFiles idx) c snaps
      in if \<not> completes then (Inl UploadError, c1, w1)
         else
           let w2 = w1\<lparr>storage := (storage w1)(path \<mapsto> f)\<rparr>;
               w3 = emit (GetDownloadURL path) w2
           in case getDownloadURL be path of
                None \<Rightarrow> (Inl DownloadURLError, c1, w3)
              | Some url \<Rightarrow> (Inr url, on_complete totalFiles idx c1, w3))"

subsection \<open>The submission: \<^verbatim>\<open>submit\<close>\<close>

text \<open>Lines 657 to 663: the images are compressed one after the other, with the default
  width and size band; a rejected promise leaves the loop.\<close>

fun compress_loop :: "browser \<Rightarrow> File list \<Rightarrow> File list \<Rightarrow> world \<Rightarrow> (error + File list) \<times> world" where
  "compress_loop br [] compressedFiles w = (Inr compressedFiles, w)"
| "compress_loop br (f # fs) compressedFiles w =
     (case compressImage br f 1280 200 400 w of
        (Inl e, w1) \<Rightarrow> (Inl e, w1)
      | (Inr compressed, w1) \<Rightarrow> compress_loop br fs (compressedFiles @ [compressed]) w1)"

text \<open>Lines 708 to 712: the uploads run one after the other, \<open>idx\<close> counting from 0.\<close>

fun upload_loop ::
  "backend \<Rightarrow> AppUser \<Rightarrow> nat \<Rightarrow> File list \<Rightarrow> nat \<Rightarrow> string list \<Rightarrow> component \<Rightarrow> world
     \<Rightarrow> (error + string list) \<times> component \<times> world" where
  "upload_loop be user totalFiles [] idx uploadedUrls c w = (Inr uploadedUrls, c, w)"
| "upload_loop be user totalFiles (f # fs) idx uploadedUrls c w =
     (case uploadSingle be user totalFiles f idx c w of
        (Inl e, c1, w1) \<Rightarrow> (Inl e, c1, w1)
      | (Inr u, c1, w1) \<Rightarrow> upload_loop be user totalFiles fs (Suc idx) (uploadedUrls @ [u]) c1 w1)"

text \<open>The \<^verbatim>\<open>catch\<close> block (lines 744 to 748).\<close>

definition submit_failed :: "component \<Rightarrow> world \<Rightarrow> component \<times> world" where
  "submit_failed c w =
     (c\<lparr>uploading := False\<rparr>,
      emit (Notify Error ''Failed to submit report. Please try again.'' ''Submission Failed'') w)"

text \<open>Lines 716 to 722: the location text of the document.\<close>

definition locationText :: "backend \<Rightarrow> component \<Rightarrow> string" where
  "locationText be c =
     (let t0 = form_location (report c);
          t1 = (case userBarangay_name c of
                  Some n \<Rightarrow> if t0 = [] \<and> n \<noteq> [] then n else t0
                | None \<Rightarrow> t0)
      in case (form_lat (report c), form_lng (report c)) of
           (Some la, Some lo) \<Rightarrow> if t1 = [] then toFixed6 be la @ '', '' @ toFixed6 be lo else t1
         | _ \<Rightarrow> t1)"

text \<open>Line 737: the form after a successful submission.\<close>

definition reset_form :: report_form where
  "reset_form =
     \<lparr>form_type = ''water'', form_location = [], form_description = [], form_images = [],
      form_dateTaken = [], form_timeTaken = [], form_lat = None, form_lng = None\<rparr>"

definition submit :: "browser \<Rightarrow> backend \<Rightarrow> component \<Rightarrow> world \<Rightarrow> component \<times> world" where
  "submit br be c w =
     (if form_type (report c) = [] then
        (c, emit (Notify Warning ''Please select pollution type'' ''Missing Information'') w)
      else if form_description (report c) = [] then
        (c, emit (Notify Warning ''Please provide a description'' ''Missing Information'') w)
      else if form_lat (report c) = None \<or> form_lng (report c) = None then
        (c, emit (Notify Warning
                    ''Please set a location on the map by clicking or dragging the marker''
                    ''Missing Location'') w)
      else if length (form_images (report c)) = 0 then
        (c, emit (Notify Warning ''Please upload at least one image'' ''Missing Images'') w)
      else
        let c1 = c\<lparr>uploading := True\<rparr> in
        case current_user be of
          None \<Rightarrow>
            (c1\<lparr>uploading := False\<rparr>,
             emit (Navigate ''/login'')
               (emit (Notify Error ''You must be logged in to submit a report'' ''Not Logged In'') w))
        | Some user \<Rightarrow>
            let c2 = c1\<lparr>progressTotal := length (form_images (report c1)),
                        progressUploaded := 0,
                        progressPercent := 0,
                        progressPerImage := replicate (length (form_images (report c1))) 0\<rparr>
            in case compress_loop br (form_images (report c2)) [] w of
                 (Inl e, w1) \<Rightarrow> submit_failed c2 w1
               | (Inr compressedFiles, w1) \<Rightarrow>
                   (case upload_loop be user (length compressedFiles) compressedFiles 0 [] c2 w1 of
                      (Inl e, c3, w2) \<Rightarrow> submit_failed c3 w2
                    | (Inr uploadedUrls, c3, w2) \<Rightarrow>
                        (case saveReportWithUrls be user
                                \<lparr>p_type = form_type (report c3),
                                 p_location = or_else (locationText be c3) ''Unknown Location'',
                                 p_description = form_description (report c3),
                                 p_imageUrls = uploadedUrls,
                                 p_dateTaken = form_dateTaken (report c3),
                                 p_timeTaken = form_timeTaken (report c3),
                                 p_barangayId = barangay user\<rparr> w2 of
                           (Inl e, w3) \<Rightarrow> submit_failed c3 w3
                         | (Inr u, w3) \<Rightarrow>
                             let c4 = c3\<lparr>report := reset_form\<rparr>;
                                 w4 = revoke_all (previews c4) w3;
                                 c5 = c4\<lparr>previews := [], progressPerImage := [], uploading := False\<rparr>;
                                 w5 = emit (Notify Success
                                   ''Report submitted successfully! Your report will be reviewed and approved by an admin before it is published.''
                                   ''Report Submitted'') w4;
                                 w6 = emit (Navigate ''/'') w5
                             in if navigate_ok be then (c5, w6) else submit_failed c5 w6)))"

section \<open>The workflow status in the admin dashboards\<close>

text \<open>The fields of a \<^verbatim>\<open>Partial<Report>\<close> that the dashboards write: a field that is
  \<open>None\<close> is not part of the update.\<close>

record report_patch =
  patch_status :: "status option"
  patch_approved :: "bool option"

definition apply_patch :: "report_patch \<Rightarrow> report_doc \<Rightarrow> report_doc" where
  "apply_patch p d =
     d\<lparr>doc_status := (case patch_status p of None \<Rightarrow> doc_status d | Some s \<Rightarrow> s),
       doc_approved := (case patch_approved p of None \<Rightarrow> doc_approved d | Some a \<Rightarrow> Some a)\<rparr>"

text \<open>\<^verbatim>\<open>updateDoc\<close> merges the fields into the document with the identifier and rejects
  when there is none.\<close>

fun updateDoc :: "collection \<Rightarrow> string \<Rightarrow> report_patch \<Rightarrow> collection option" where
  "updateDoc [] reportId data = None"
| "updateDoc ((k, d) # col) reportId data =
     (if k = reportId then Some ((k, apply_patch data d) # col)
      else map_option (\<lambda>col'. (k, d) # col') (updateDoc col reportId data))"

text \<open>\<^verbatim>\<open>ReportsService.updateReport\<close>. What the store answers: whether it can be reached
  (\<open>Some\<close> of the message of the error when it cannot), and the message of the error for a
  document that does not exist. A rejection is modelled by the string
  \<^verbatim>\<open>(err as any)?.message || ''\<close>.\<close>

record firestore =
  outage :: "string option"
  not_found :: "string \<Rightarrow> string"

definition updateReport :: "firestore \<Rightarrow> collection \<Rightarrow> string \<Rightarrow> report_patch \<Rightarrow> string + collection" where
  "updateReport fs col reportId data =
     (case outage fs of
        Some msg \<Rightarrow> Inl msg
      | None \<Rightarrow>
          (case updateDoc col reportId data of
             None \<Rightarrow> Inl (not_found fs reportId)
           | Some col' \<Rightarrow> Inr col'))"

text \<open>A dashboard holds its copy of the reports, \<^verbatim>\<open>this.reports\<close>, each with the identifier
  it was read under (\<^verbatim>\<open>Report & { id?: string }\<close>), and the toasts it has shown. The
  component hands its reports out as \<^verbatim>\<open>this.reports\<close> and as filtered views of it
  (\<^verbatim>\<open>getPendingReports\<close>, \<^verbatim>\<open>filteredReports\<close>), which hold the same objects, so the report
  an operation is handed is one of these objects. It is named by its position \<open>i\<close> in the
  list, so that an assignment to the object shows in the list; a position beyond the list
  names no report, and nothing happens.\<close>

type_synonym listed_report = "string option \<times> report_doc"

record dashboard =
  reports :: "listed_report list"
  toasts :: "(string \<times> string) list"

definition showToast :: "string \<Rightarrow> string \<Rightarrow> dashboard \<Rightarrow> dashboard" where
  "showToast msg kind dash = dash\<lparr>toasts := toasts dash @ [(msg, kind)]\<rparr>"

text \<open>\<^verbatim>\<open>!report.id\<close>: the identifier is missing or empty.\<close>

definition no_id :: "listed_report \<Rightarrow> bool" where
  "no_id r = (case fst r of None \<Rightarrow> True | Some k \<Rightarrow> k = [])"

text \<open>\<^verbatim>\<open>const idx = this.reports.findIndex(r => r.id === report.id);
  if (idx >= 0) this.reports[idx].status = status;\<close>\<close>

fun set_status_of_first :: "string option \<Rightarrow> status \<Rightarrow> listed_report list \<Rightarrow> listed_report list" where
  "set_status_of_first k s [] = []"
| "set_status_of_first k s ((k', d) # rs) =
     (if k' = k then (k', d\<lparr>doc_status := s\<rparr>) # rs else (k', d) # set_status_of_first k s rs)"

definition status_label :: "status \<Rightarrow> string" where
  "status_label s = (case s of Pending \<Rightarrow> ''Pending'' | In_Progress \<Rightarrow> ''In Progress'' | Done \<Rightarrow> ''Done'')"

text \<open>\<^verbatim>\<open>updateStatus\<close> as both \<^verbatim>\<open>AdminDashboard\<close> classes of \<^verbatim>\<open>src/unnamed/part_002\<close>
  have it: any of the three statuses may be requested.\<close>

definition updateStatus ::
  "firestore \<Rightarrow> nat \<Rightarrow> status \<Rightarrow> dashboard \<Rightarrow> collection \<Rightarrow> dashboard \<times> collection" where
  "updateStatus fs i s dash col =
     (if length (reports dash) \<le> i then (dash, col)
      else
        let r = reports dash ! i in
        if no_id r then (dash, col)
        else case updateReport fs col (the (fst r)) \<lparr>patch_status = Some s, patch_approved = None\<rparr> of
               Inl msg \<Rightarrow> (showToast ''Failed to update status'' ''danger'' dash, col)
             | Inr col' \<Rightarrow>
                 (showToast (''Report status updated to '' @ status_label s) ''success''
                    (dash\<lparr>reports := set_status_of_first (fst r) s (reports dash)\<rparr>),
                  col'))"

text \<open>\<^verbatim>\<open>updateStatus\<close> as the \<^verbatim>\<open>AdminDashboard\<close> of \<^verbatim>\<open>src/unnamed/part_001\<close> has it: only
  \<^verbatim>\<open>'In Progress'\<close> and \<^verbatim>\<open>'Done'\<close> may be requested, and \<^verbatim>\<open>'Done'\<close> asks for a
  confirmation first; \<open>confirmed\<close> is the answer to it.\<close>

datatype later_status = To_In_Progress | To_Done

fun status_of :: "later_status \<Rightarrow> status" where
  "status_of To_In_Progress = In_Progress"
| "status_of To_Done = Done"

definition updateStatus_confirm ::
  "bool \<Rightarrow> firestore \<Rightarrow> nat \<Rightarrow> later_status \<Rightarrow> dashboard \<Rightarrow> collection
     \<Rightarrow> dashboard \<times> collection" where
  "updateStatus_confirm confirmed fs i t dash col =
     (if length (reports dash) \<le> i then (dash, col)
      else
        let r = reports dash ! i in
        if no_id r then (dash, col)
        else if t = To_Done \<and> \<not> confirmed then (dash, col)
        else case updateReport fs col (the (fst r))
                    \<lparr>patch_status = Some (status_of t), patch_approved = None\<rparr> of
               Inl msg \<Rightarrow> (showToast ''Failed to update status'' ''danger'' dash, col)
             | Inr col' \<Rightarrow>
                 (showToast (''Report status updated to '' @ status_label (status_of t)) ''success''
                    (dash\<lparr>reports := set_status_of_first (fst r) (status_of t) (reports dash)\<rparr>),
                  col'))"

text \<open>\<^verbatim>\<open>approveReport\<close> and \<^verbatim>\<open>unapproveReport\<close>. They assign to the report object they are
  handed. The dashboard of \<^verbatim>\<open>part_001\<close> approves with
  \<^verbatim>\<open>{ approved: true, status: 'In Progress' }\<close>, the one of \<^verbatim>\<open>part_002\<close> with
  \<^verbatim>\<open>{ approved: true }\<close>.\<close>

definition approveReport_in_progress ::
  "firestore \<Rightarrow> nat \<Rightarrow> dashboard \<Rightarrow> collection \<Rightarrow> dashboard \<times> collection" where
  "approveReport_in_progress fs i dash col =
     (if length (reports dash) \<le> i then (dash, col)
      else
        let r = reports dash ! i in
        if no_id r then (dash, col)
        else case updateReport fs col (the (fst r))
                    \<lparr>patch_status = Some In_Progress, patch_approved = Some True\<rparr> of
               Inl msg \<Rightarrow> (showToast (''Failed to approve report: '' @ msg) ''danger'' dash, col)
             | Inr col' \<Rightarrow>
                 (showToast ''Report approved and is now In Progress'' ''success''
                    (dash\<lparr>reports := (reports dash)
                       [i := (fst r, (snd r)\<lparr>doc_approved := Some True, doc_status := In_Progress\<rparr>)]\<rparr>),
                  col'))"

definition approveReport ::
  "firestore \<Rightarrow> nat \<Rightarrow> dashboard \<Rightarrow> collection \<Rightarrow> dashboard \<times> collection" where
  "approveReport fs i dash col =
     (if length (reports dash) \<le> i then (dash, col)
      else
        let r = reports dash ! i in
        if no_id r then (dash, col)
        else case updateReport fs col (the (fst r)) \<lparr>patch_status = None, patch_approved = Some True\<rparr> of
               Inl msg \<Rightarrow> (showToast (''Failed to approve report: '' @ msg) ''danger'' dash, col)
             | Inr col' \<Rightarrow>
                 (showToast ''Report approved and will now appear on home page'' ''success''
                    (dash\<lparr>reports := (reports dash)[i := (fst r, (snd r)\<lparr>doc_approved := Some True\<rparr>)]\<rparr>),
                  col'))"

definition unapproveReport ::
  "firestore \<Rightarrow> nat \<Rightarrow> dashboard \<Rightarrow> collection \<Rightarrow> dashboard \<times> collection" where
  "unapproveReport fs i dash col =
     (if length (reports dash) \<le> i then (dash, col)
      else
        let r = reports dash ! i in
        if no_id r then (dash, col)
        else case updateReport fs col (the (fst r)) \<lparr>patch_status = None, patch_approved = Some False\<rparr> of
               Inl msg \<Rightarrow> (showToast (''Failed to unapprove report: '' @ msg) ''danger'' dash, col)
             | Inr col' \<Rightarrow>
                 (showToast ''Report unapproved and hidden from home page'' ''success''
                    (dash\<lparr>reports := (reports dash)[i := (fst r, (snd r)\<lparr>doc_approved := Some False\<rparr>)]\<rparr>),
                  col'))"

text \<open>The stored status and approval flag of a report, and the order of the workflow.\<close>

definition stored_approved :: "collection \<Rightarrow> string \<Rightarrow> bool option option" where
  "stored_approved col k = map_option doc_approved (map_of col k)"

definition stored_status :: "collection \<Rightarrow> string \<Rightarrow> status option" where
  "stored_status col k = map_option doc_status (map_of col k)"

fun status_rank :: "status \<Rightarrow> nat" where
  "status_rank Pending = 0"
| "status_rank In_Progress = 1"
| "status_rank Done = 2"

section \<open>Notions and example values used in the statements\<close>

text \<open>The events a step appends to the log.\<close>

definition new_events :: "world \<Rightarrow> world \<Rightarrow> io_event list" where
  "new_events w w' = drop (length (io_log w)) (io_log w')"

fun is_Notify :: "io_event \<Rightarrow> bool" where
  "is_Notify (Notify l m t) = True"
| "is_Notify e = False"

text \<open>Example values for the closed instances below.\<close>

definition photo :: "string \<Rightarrow> nat \<Rightarrow> File" where
  "photo name n = \<lparr>blob_size = n, blob_type = ''image/png'', file_name = name\<rparr>"

definition empty_world :: world where
  "empty_world = \<lparr>io_log = [], url_count = 0, reports_col = [], storage = Map.empty\<rparr>"

text \<open>The search \<^verbatim>\<open>compressImage\<close> runs on a decodable image: the blob it keeps and the
  qualities it encodes at.\<close>

definition search_of :: "browser \<Rightarrow> File \<Rightarrow> int \<Rightarrow> nat \<Rightarrow> nat \<Rightarrow> blob option \<times> rat list" where
  "search_of br f maxWidth targetMinKB targetMaxKB =
     (case image_size br f of
        None \<Rightarrow> (None, [])
      | Some (iw, ih) \<Rightarrow>
          quality_search (canvas_toBlob br f (fst (canvas_size iw ih maxWidth)) (snd (canvas_size iw ih maxWidth)))
            (targetMinKB * 1024) (targetMaxKB * 1024) 7 (double (2 / 5)) (double (19 / 20)) None [])"

text \<open>An example browser: every image decodes to 2560 by 1920 pixels, and the JPEG at
  quality \<open>q\<close> has \<open>\<lfloor>400000 q\<rfloor>\<close> bytes.\<close>

definition example_browser :: browser where
  "example_browser =
     \<lparr>image_size = (\<lambda>f. Some (2560, 1920)),
      getContext = (\<lambda>f. True),
      canvas_toBlob = (\<lambda>f nw nh q. Some \<lparr>blob_size = nat \<lfloor>q * 400000\<rfloor>, blob_type = ''image/jpeg''\<rparr>)\<rparr>"

text \<open>The quality of the first iteration, the midpoint of \<^verbatim>\<open>0.4\<close> and \<^verbatim>\<open>0.95\<close>.\<close>

definition first_quality :: rat where
  "first_quality = js_div (js_add (double (2 / 5)) (double (19 / 20))) 2"

text \<open>The size band the search aims at; an encoder that answers at every quality from
  0.4 to 0.95 and whose size grows with the quality there; and an encoder whose size is
  inside the band at every quality from \<open>a\<close> to \<open>b\<close>.\<close>

definition in_band :: "nat \<Rightarrow> nat \<Rightarrow> 'a blob_scheme \<Rightarrow> bool" where
  "in_band mn mx b = (mn \<le> blob_size b \<and> blob_size b \<le> mx)"

definition monotonic_size :: "(rat \<Rightarrow> blob option) \<Rightarrow> bool" where
  "monotonic_size tb =
     (\<forall>q1 q2. 2 / 5 \<le> q1 \<and> q1 \<le> q2 \<and> q2 \<le> 19 / 20 \<longrightarrow>
        (\<exists>b1 b2. tb q1 = Some b1 \<and> tb q2 = Some b2 \<and> blob_size b1 \<le> blob_size b2))"

definition band_between :: "(rat \<Rightarrow> blob option) \<Rightarrow> nat \<Rightarrow> nat \<Rightarrow> rat \<Rightarrow> rat \<Rightarrow> bool" where
  "band_between tb mn mx a b =
     (\<forall>q. a \<le> q \<and> q \<le> b \<longrightarrow> (\<exists>bl. tb q = Some bl \<and> in_band mn mx bl))"

text \<open>The bounds of the search as the specification words them: they start at \<^verbatim>\<open>0.4\<close> and
  \<^verbatim>\<open>0.95\<close>; an encode above the band lowers the upper bound to its quality, an encode below
  the band raises the lower bound to it, and any other outcome leaves them. \<open>bounds_after\<close>
  gives the bounds after the encodes at the qualities \<open>qs\<close>, and \<open>midpoint\<close> the quality
  halfway between two bounds.\<close>

definition narrow :: "(rat \<Rightarrow> blob option) \<Rightarrow> nat \<Rightarrow> nat \<Rightarrow> rat \<times> rat \<Rightarrow> rat \<Rightarrow> rat \<times> rat" where
  "narrow tb mn mx lh q =
     (case tb q of
        None \<Rightarrow> lh
      | Some bl \<Rightarrow>
          if mx < blob_size bl then (fst lh, q)
          else if blob_size bl < mn then (q, snd lh)
          else lh)"

definition bounds_after :: "(rat \<Rightarrow> blob option) \<Rightarrow> nat \<Rightarrow> nat \<Rightarrow> rat list \<Rightarrow> rat \<times> rat" where
  "bounds_after tb mn mx qs = foldl (narrow tb mn mx) (double (2 / 5), double (19 / 20)) qs"

definition midpoint :: "rat \<times> rat \<Rightarrow> rat" where
  "midpoint lh = js_div (js_add (fst lh) (snd lh)) 2"

text \<open>The pixel size of the image \<^verbatim>\<open>compressImage\<close> returns: a file built from an encoded
  blob has the size of the canvas, the original file the size it decodes to.\<close>

definition output_size :: "browser \<Rightarrow> File \<Rightarrow> int \<Rightarrow> nat \<Rightarrow> nat \<Rightarrow> (int \<times> int) option" where
  "output_size br f maxWidth targetMinKB targetMaxKB =
     (case image_size br f of
        None \<Rightarrow> None
      | Some (iw, ih) \<Rightarrow>
          if getContext br f \<and> fst (search_of br f maxWidth targetMinKB targetMaxKB) \<noteq> None
          then Some (canvas_size iw ih maxWidth)
          else Some (iw, ih))"

fun is_ToBlob :: "io_event \<Rightarrow> bool" where
  "is_ToBlob (ToBlob nw nh q) = True"
| "is_ToBlob e = False"

text \<open>A three megabyte photo.\<close>

definition example_file :: File where
  "example_file = photo ''a.png'' 3000000"

text \<open>An encoder whose size steps from 100 KB to 500 KB around the one quality 1/2, where
  it is 300 KB.\<close>

definition step_encoder :: "rat \<Rightarrow> blob option" where
  "step_encoder q =
     Some \<lparr>blob_size = (if q < 1 / 2 then 102400 else if q = 1 / 2 then 307200 else 512000),
           blob_type = ''image/jpeg''\<rparr>"

definition step_browser :: browser where
  "step_browser =
     \<lparr>image_size = (\<lambda>f. Some (2560, 1920)), getContext = (\<lambda>f. True),
      canvas_toBlob = (\<lambda>f nw nh. step_encoder)\<rparr>"

text \<open>Encoders that yield \<^verbatim>\<open>null\<close>: one always, two from the second iteration on, after a
  first encode above and below the band.\<close>

definition null_browser :: browser where
  "null_browser =
     \<lparr>image_size = (\<lambda>f. Some (2560, 1920)), getContext = (\<lambda>f. True),
      canvas_toBlob = (\<lambda>f nw nh q. None)\<rparr>"

definition late_null_browser :: browser where
  "late_null_browser =
     \<lparr>image_size = (\<lambda>f. Some (2560, 1920)), getContext = (\<lambda>f. True),
      canvas_toBlob = (\<lambda>f nw nh q.
         if q = first_quality then Some \<lparr>blob_size = 512000, blob_type = ''image/jpeg''\<rparr> else None)\<rparr>"

definition late_null_small_browser :: browser where
  "late_null_small_browser =
     \<lparr>image_size = (\<lambda>f. Some (2560, 1920)), getContext = (\<lambda>f. True),
      canvas_toBlob = (\<lambda>f nw nh q.
         if q = first_quality then Some \<lparr>blob_size = 100000, blob_type = ''image/jpeg''\<rparr> else None)\<rparr>"

text \<open>A browser that hands out no 2d context.\<close>

definition no_context_browser :: browser where
  "no_context_browser =
     \<lparr>image_size = (\<lambda>f. Some (2560, 1920)), getContext = (\<lambda>f. False),
      canvas_toBlob = (\<lambda>f nw nh q. Some \<lparr>blob_size = 270000, blob_type = ''image/jpeg''\<rparr>)\<rparr>"

text \<open>The four checks of lines 623 to 640, all passed.\<close>

definition valid_form :: "component \<Rightarrow> bool" where
  "valid_form c =
     (form_type (report c) \<noteq> [] \<and> form_description (report c) \<noteq> []
      \<and> form_lat (report c) \<noteq> None \<and> form_lng (report c) \<noteq> None
      \<and> form_images (report c) \<noteq> [])"

text \<open>The component as lines 642 and 652 to 655 leave it before the first image is
  compressed.\<close>

definition prepared :: "component \<Rightarrow> component" where
  "prepared c =
     c\<lparr>uploading := True,
       progressTotal := length (form_images (report c)),
       progressUploaded := 0,
       progressPercent := 0,
       progressPerImage := replicate (length (form_images (report c))) 0\<rparr>"

text \<open>The log of \<open>w'\<close> is the log of \<open>w\<close> followed by events that satisfy \<open>P\<close>; the calls
  that write to the report store or delete from the blob store.\<close>

definition appends :: "(io_event \<Rightarrow> bool) \<Rightarrow> world \<Rightarrow> world \<Rightarrow> bool" where
  "appends P w w' = (\<exists>es. io_log w' = io_log w @ es \<and> list_all P es)"

fun store_write :: "io_event \<Rightarrow> bool" where
  "store_write (AddDoc d) = True"
| "store_write (DeleteObject p) = True"
| "store_write e = False"

abbreviation no_store_write :: "io_event \<Rightarrow> bool" where
  "no_store_write \<equiv> (\<lambda>e. \<not> store_write e)"

text \<open>A revocation of an object URL numbered below \<open>n\<close>, and the calls of an upload.\<close>

fun revokes_below :: "nat \<Rightarrow> io_event \<Rightarrow> bool" where
  "revokes_below n (RevokeObjectURL u) = (u < n)"
| "revokes_below n e = False"

fun is_upload_call :: "io_event \<Rightarrow> bool" where
  "is_upload_call (UploadBytes p f) = True"
| "is_upload_call (GetDownloadURL p) = True"
| "is_upload_call e = False"

text \<open>Upload \<open>idx\<close> of a file resolves: the transfer completes and the download URL is
  delivered.\<close>

definition upload_ok :: "backend \<Rightarrow> AppUser \<Rightarrow> nat \<Rightarrow> File \<Rightarrow> bool" where
  "upload_ok be user idx f =
     (snd (upload_run be (upload_path be user idx f) f)
      \<and> getDownloadURL be (upload_path be user idx f) \<noteq> None)"

text \<open>The example submission: a signed-in user, a backend that accepts every write and
  whose uploads proceed as \<open>runs\<close> says, and the form filled in with three photos, as the
  file selection leaves it.\<close>

definition example_user :: AppUser where
  "example_user = \<lparr>uid = ''u1'', email = Some ''ann@example.org'', barangay = ''b7''\<rparr>"

definition example_backend :: "(string \<Rightarrow> snapshot list \<times> bool) \<Rightarrow> backend" where
  "example_backend runs =
     \<lparr>current_user = Some example_user,
      Date_now = (\<lambda>idx. 1700 + idx),
      toLocaleDateString = ''11/2/2026'',
      toLocaleTimeString = ''10:00:00 AM'',
      toFixed6 = (\<lambda>x. ''16.402300''),
      upload_run = (\<lambda>path f. runs path),
      getDownloadURL = (\<lambda>path. Some (''https://cdn/'' @ path)),
      store_accepts = (\<lambda>d. True),
      auto_id = ''r1'',
      navigate_ok = True\<rparr>"

definition example_form :: "File list \<Rightarrow> report_form" where
  "example_form imgs =
     \<lparr>form_type = ''air'', form_location = ''Session Road'', form_description = ''smoke'',
      form_images = imgs, form_dateTaken = [], form_timeTaken = [],
      form_lat = Some (82 / 5), form_lng = Some (603 / 5)\<rparr>"

definition three_photos :: "File list" where
  "three_photos = [photo ''a.png'' 3000000, photo ''b.png'' 3000000, photo ''c.png'' 3000000]"

definition example_component :: component where
  "example_component =
     initial_component\<lparr>report := example_form three_photos, previews := [0, 1, 2],
                        progressPerImage := [0, 0, 0]\<rparr>"

definition example_world :: world where
  "example_world =
     \<lparr>io_log = [CreateObjectURL 0, CreateObjectURL 1, CreateObjectURL 2], url_count = 3,
      reports_col = [], storage = Map.empty\<rparr>"

text \<open>The compressed photos, a backend whose second upload fails after one progress event,
  one whose uploads all complete, and the document the latter stores.\<close>

definition jpeg :: "string \<Rightarrow> File" where
  "jpeg name = \<lparr>blob_size = 270000, blob_type = ''image/jpeg'', file_name = name\<rparr>"

definition second_fails :: "string \<Rightarrow> snapshot list \<times> bool" where
  "second_fails path =
     (if path = ''reports/u1/1701_b.jpg''
      then ([\<lparr>bytesTransferred = 100000, totalBytes = 270000\<rparr>], False)
      else ([\<lparr>bytesTransferred = 270000, totalBytes = 270000\<rparr>], True))"

definition all_complete :: "string \<Rightarrow> snapshot list \<times> bool" where
  "all_complete path = ([\<lparr>bytesTransferred = 270000, totalBytes = 270000\<rparr>], True)"

definition example_doc :: report_doc where
  "example_doc =
     \<lparr>doc_type = ''air'', doc_location = ''Session Road'', doc_date = ''11/2/2026'',
      doc_time = ''10:00:00 AM'', doc_description = ''smoke'',
      doc_images = [''https://cdn/reports/u1/1700_a.jpg'', ''https://cdn/reports/u1/1701_b.jpg'',
                    ''https://cdn/reports/u1/1702_c.jpg''],
      doc_reporterId = ''u1'', doc_reporterName = ''ann@example.org'', doc_barangayId = Some ''b7'',
      doc_status = Pending, doc_upvotes = 0, doc_approved = None\<rparr>"

text \<open>A backend whose uploads fail before any progress event, and the state the failed
  example submission leaves behind.\<close>

definition never_starts :: "string \<Rightarrow> snapshot list \<times> bool" where
  "never_starts path = ([], False)"

definition after_failed_attempt :: "component \<times> world" where
  "after_failed_attempt =
     submit example_browser (example_backend second_fails) example_component example_world"

text \<open>A dashboard operation can write: the report at position \<open>i\<close> has the identifier \<open>k\<close>,
  the store is reached and holds a document under \<open>k\<close>.\<close>

definition reaches :: "firestore \<Rightarrow> dashboard \<Rightarrow> nat \<Rightarrow> collection \<Rightarrow> string \<Rightarrow> bool" where
  "reaches fs dash i col k =
     (i < length (reports dash) \<and> fst (reports dash ! i) = Some k \<and> k \<noteq> []
      \<and> outage fs = None \<and> map_of col k \<noteq> None)"

text \<open>A report that is done and approved, in the store and on the dashboard, and a store
  that is reached.\<close>

definition done_doc :: report_doc where
  "done_doc = example_doc\<lparr>doc_status := Done, doc_approved := Some True\<rparr>"

definition example_dashboard :: "report_doc \<Rightarrow> dashboard" where
  "example_dashboard d = \<lparr>reports = [(Some ''r1'', d)], toasts = []\<rparr>"

definition example_store :: firestore where
  "example_store = \<lparr>outage = None, not_found = (\<lambda>k. ''No document to update: '' @ k)\<rparr>"

section \<open>Facts about the log and the object URLs\<close>

lemma emit_simps:
  "io_log (emit e w) = io_log w @ [e]"
  "url_count (emit e w) = url_count w"
  "reports_col (emit e w) = reports_col w"
  "storage (emit e w) = storage w"
  by (simp_all add: emit_def)

lemma revoke_all_log: "io_log (revoke_all us w) = io_log w @ map RevokeObjectURL us"
  by (induction us arbitrary: w) (simp_all add: revokeObjectURL_def emit_simps)

lemma revoke_all_rest:
  "url_count (revoke_all us w) = url_count w"
  "reports_col (revoke_all us w) = reports_col w"
  "storage (revoke_all us w) = storage w"
  by (induction us arbitrary: w) (simp_all add: revokeObjectURL_def emit_simps)

lemma create_all_Cons:
  "create_all (f # fs) w =
     (url_count w # fst (create_all fs (snd (createObjectURL w))),
      snd (create_all fs (snd (createObjectURL w))))"
  by (simp add: split_def Let_def createObjectURL_def)

lemma createObjectURL_snd:
  "io_log (snd (createObjectURL w)) = io_log w @ [CreateObjectURL (url_count w)]"
  "url_count (snd (createObjectURL w)) = Suc (url_count w)"
  "reports_col (snd (createObjectURL w)) = reports_col w"
  "storage (snd (createObjectURL w)) = storage w"
  by (simp_all add: createObjectURL_def emit_simps)

lemma create_all_length: "length (fst (create_all fs w)) = length fs"
  by (induction fs arbitrary: w) (simp_all add: create_all_Cons del: create_all.simps(2))

lemma create_all_log:
  "io_log (snd (create_all fs w)) = io_log w @ map CreateObjectURL (fst (create_all fs w))"
  by (induction fs arbitrary: w)
     (simp_all add: create_all_Cons createObjectURL_snd del: create_all.simps(2))

lemma create_all_rest:
  "reports_col (snd (create_all fs w)) = reports_col w"
  "storage (snd (create_all fs w)) = storage w"
  "url_count (snd (create_all fs w)) = url_count w + length fs"
  by (induction fs arbitrary: w) (simp_all add: create_all_Cons createObjectURL_snd del: create_all.simps(2))

section \<open>File selection\<close>

text \<open>
  Claim C10. When a file input or a drop offers \<open>n\<close> files and \<^verbatim>\<open>maxFiles\<close> is 3, the
  accepted images are the first \<open>min n 3\<close> offered files, no notification is raised for
  the files left out, and the progress array is \<open>min n 3\<close> zeros, as long as the accepted
  list.
\<close>

theorem file_selection_keeps_first_three:
  assumes "maxFiles c = 3"
  shows "form_images (report (fst (onFileChange (Some fs) c w))) = take (min (length fs) 3) fs
       \<and> progressPerImage (fst (onFileChange (Some fs) c w)) = replicate (min (length fs) 3) 0
       \<and> filter is_Notify (new_events w (snd (onFileChange (Some fs) c w))) = []
       \<and> form_images (report (fst (onDrop (Some fs) c w))) = take (min (length fs) 3) fs
       \<and> progressPerImage (fst (onDrop (Some fs) c w)) = replicate (min (length fs) 3) 0
       \<and> filter is_Notify (new_events w (snd (onDrop (Some fs) c w))) = []"
proof -
  have t: "take (min (length fs) 3) fs = take 3 fs" by (simp add: min_def)
  have a: "form_images (report (fst (onFileChange (Some fs) c w))) = take 3 fs"
    using assms by (simp add: onFileChange_def Let_def split_def)
  have b: "progressPerImage (fst (onFileChange (Some fs) c w)) = replicate (min (length fs) 3) 0"
    using assms by (simp add: onFileChange_def Let_def split_def)
  have c: "filter is_Notify (new_events w (snd (onFileChange (Some fs) c w))) = []"
    by (auto simp: onFileChange_def Let_def split_def new_events_def create_all_log revoke_all_log revoke_all_rest filter_empty_conv)
  have d: "form_images (report (fst (onDrop (Some fs) c w))) = take 3 fs"
    using assms by (simp add: onDrop_def Let_def split_def)
  have e: "progressPerImage (fst (onDrop (Some fs) c w)) = replicate (min (length fs) 3) 0"
    using assms by (simp add: onDrop_def Let_def split_def)
  have f: "filter is_Notify (new_events w (snd (onDrop (Some fs) c w))) = []"
    by (auto simp: onDrop_def Let_def split_def new_events_def create_all_log revoke_all_log revoke_all_rest filter_empty_conv)
  show ?thesis using a b c d e f t by simp
qed

text \<open>Claim C10 at four offered files: the first three are accepted, with three zeros of progress.\<close>

theorem file_selection_keeps_first_three_witness:
  "maxFiles initial_component = 3
   \<and> form_images (report (fst (onFileChange
         (Some [photo ''a.png'' 1, photo ''b.png'' 2, photo ''c.png'' 3, photo ''d.png'' 4])
         initial_component empty_world)))
       = [photo ''a.png'' 1, photo ''b.png'' 2, photo ''c.png'' 3]
   \<and> progressPerImage (fst (onDrop
         (Some [photo ''a.png'' 1, photo ''b.png'' 2, photo ''c.png'' 3, photo ''d.png'' 4])
         initial_component empty_world)) = [0, 0, 0]"
proof -
  have m: "maxFiles initial_component = 3"
    by (simp add: initial_component_def)
  have r: "replicate (min (length [photo ''a.png'' 1, photo ''b.png'' 2, photo ''c.png'' 3, photo ''d.png'' 4]) 3) (0::int)
           = [0, 0, 0]"
    by (simp add: numeral_3_eq_3)
  show ?thesis
    using m r file_selection_keeps_first_three [OF m,
        of "[photo ''a.png'' 1, photo ''b.png'' 2, photo ''c.png'' 3, photo ''d.png'' 4]" empty_world]
    by simp
qed

section \<open>Rounding to a double\<close>

lemma pow2_pos: "0 < pow2 e"
  by (simp add: pow2_def)

lemma pow2_power_int: "pow2 e = 2 powi e"
  by (simp add: pow2_def power_int_def power_inverse [symmetric] inverse_eq_divide power_one_over)

lemma pow2_Suc: "pow2 (e + 1) = 2 * pow2 e"
  by (simp add: pow2_power_int power_int_add)

lemma pow2_pred: "pow2 (e - 1) = pow2 e / 2"
  using pow2_Suc [of "e - 1"] by simp

lemma pow2_sub_nat: "pow2 (e - int k) = pow2 e / 2 ^ k"
proof (induction k)
  case 0 show ?case by simp
next
  case (Suc k)
  have "pow2 (e - int (Suc k)) = pow2 ((e - int k) - 1)" by (simp add: algebra_simps)
  also have "\<dots> = pow2 (e - int k) / 2" by (rule pow2_pred)
  finally show ?case using Suc by simp
qed

lemma binade_bounds:
  "0 < x \<Longrightarrow> 1 / 2 ^ k \<le> x \<Longrightarrow> x < 2 * 2 ^ k
     \<Longrightarrow> pow2 (binade k x) \<le> x \<and> x < 2 * pow2 (binade k x)"
proof (induction k arbitrary: x)
  case 0
  then show ?case by (simp add: pow2_def)
next
  case (Suc k)
  show ?case
  proof (cases "2 \<le> x")
    case True
    have "1 / 2 ^ k \<le> (1::rat)" by (simp add: divide_le_eq)
    then have "1 / 2 ^ k \<le> x / 2" using True by linarith
    then have "pow2 (binade k (x / 2)) \<le> x / 2 \<and> x / 2 < 2 * pow2 (binade k (x / 2))"
      using Suc.prems True by (intro Suc.IH) auto
    then show ?thesis using True by (simp add: pow2_Suc)
  next
    case False
    show ?thesis
    proof (cases "x < 1")
      case True
      have "(1::rat) \<le> 2 ^ k" by simp
      then have "x * 2 < 2 * 2 ^ k" using True by linarith
      moreover have "1 / 2 ^ k \<le> x * 2" using Suc.prems(2) by (simp add: field_simps)
      ultimately have "pow2 (binade k (x * 2)) \<le> x * 2 \<and> x * 2 < 2 * pow2 (binade k (x * 2))"
        using Suc.prems(1) by (intro Suc.IH) auto
      then show ?thesis using True False by (simp add: pow2_pred)
    next
      case F2: False
      then show ?thesis using False by (simp add: pow2_def)
    qed
  qed
qed

lemma round_even_err: "\<bar>of_int (round_even y) - y\<bar> \<le> 1 / 2"
proof -
  have "of_int \<lfloor>y\<rfloor> \<le> y" "y < of_int \<lfloor>y\<rfloor> + 1" by linarith+
  then show ?thesis by (auto simp: round_even_def Let_def)
qed

lemma round_even_of_int: "round_even (of_int n) = n"
  by (simp add: round_even_def)

text \<open>The relative error of a rounding is at most \<open>1 / 2 ^ 53\<close>.\<close>

lemma double_err_wide:
  assumes "0 < x" "1 / 2 ^ 1100 \<le> x" "x < 2 * 2 ^ 1100"
  shows "\<bar>double x - x\<bar> \<le> x / 2 ^ 53"
proof -
  define e where "e = binade 1100 x"
  define u where "u = pow2 (e - 52)"
  have b: "pow2 e \<le> x" using binade_bounds [OF assms] by (simp add: e_def)
  have u: "u = pow2 e / 2 ^ 52" using pow2_sub_nat [of e 52] by (simp add: u_def)
  have upos: "0 < u" by (simp add: u_def pow2_pos)
  have ule: "u \<le> x / 2 ^ 52" using b by (simp add: u divide_right_mono)
  have d: "double x = of_int (round_even (x / u)) * u"
    using assms(1) by (simp add: double_def e_def u_def Let_def)
  have "(of_int (round_even (x / u)) - x / u) * u = double x - x"
    using upos by (simp add: d left_diff_distrib)
  then have "\<bar>double x - x\<bar> = \<bar>of_int (round_even (x / u)) - x / u\<bar> * u"
    using upos by (simp add: abs_mult_pos)
  also have "\<dots> \<le> 1 / 2 * u"
    using round_even_err [of "x / u"] upos by (intro mult_right_mono) auto
  also have "\<dots> \<le> x / 2 ^ 53" using ule by simp
  finally show ?thesis .
qed

lemma double_err:
  assumes "1 / 2 ^ 64 \<le> x" "x \<le> 2 ^ 64"
  shows "\<bar>double x - x\<bar> \<le> x / 2 ^ 53"
proof -
  have "(2::rat) ^ 64 \<le> 2 ^ 1100" by (intro power_increasing) simp_all
  then have a: "1 / 2 ^ 1100 \<le> (1 / 2 ^ 64 :: rat)" "(2::rat) ^ 64 < 2 * 2 ^ 1100"
    by (simp_all add: frac_le)
  have "(0::rat) < 1 / 2 ^ 64" by simp
  then have "0 < x" using assms(1) by linarith
  then show ?thesis
    using a assms by (intro double_err_wide) linarith+
qed

lemma double_of_int:
  assumes "0 \<le> n" "n < 2 ^ 53"
  shows "double (of_int n) = of_int n"
proof (cases "n = 0")
  case True then show ?thesis by (simp add: double_def)
next
  case False
  define x :: rat where "x = of_int n"
  have x1: "1 \<le> x" using assms False by (simp add: x_def)
  define e where "e = binade 1100 x"
  have "1 / 2 ^ 1100 \<le> (1::rat)" by simp
  then have lo: "1 / 2 ^ 1100 \<le> x" using x1 by linarith
  have "x < 2 ^ 53" using assms(2) unfolding x_def by (metis of_int_less_iff of_int_numeral of_int_power)
  moreover have "(2::rat) ^ 53 \<le> 2 * 2 ^ 1100" by simp
  ultimately have hi: "x < 2 * 2 ^ 1100" and x53: "x < 2 ^ 53" by linarith+
  have b: "pow2 e \<le> x" "x < 2 * pow2 e"
    using binade_bounds [OF _ lo hi] x1 by (simp_all add: e_def)
  have e0: "0 \<le> e"
  proof (rule ccontr)
    assume "\<not> 0 \<le> e"
    then have "e + 1 \<le> 0" by simp
    then have "(2::rat) powi (e + 1) \<le> 2 powi 0" by (intro power_int_increasing) auto
    then have "pow2 (e + 1) \<le> 1" by (simp add: pow2_power_int)
    then show False using b(2) x1 by (simp add: pow2_Suc)
  qed
  have e52: "e \<le> 52"
  proof (rule ccontr)
    assume "\<not> e \<le> 52"
    then have "53 \<le> e" by simp
    then have "(2::rat) powi 53 \<le> 2 powi e" by (intro power_int_increasing) auto
    then show False using b(1) x53 by (simp add: pow2_power_int)
  qed
  define k where "k = nat (52 - e)"
  have u: "pow2 (e - 52) = 1 / 2 ^ k"
  proof -
    have "pow2 (e - 52) = pow2 (0 - int k)" using e52 by (simp add: k_def)
    also have "\<dots> = 1 / 2 ^ k" by (simp only: pow2_sub_nat) (simp add: pow2_def)
    finally show ?thesis .
  qed
  have "x / pow2 (e - 52) = of_int (n * 2 ^ k)" by (simp add: u x_def)
  then have "round_even (x / pow2 (e - 52)) = n * 2 ^ k" by (simp only: round_even_of_int)
  then have "double x = of_int (n * 2 ^ k) * (1 / 2 ^ k)"
    using x1 by (simp add: double_def e_def [symmetric] u Let_def)
  then show ?thesis by (simp add: x_def)
qed

text \<open>Evaluating a rounding on numerals.\<close>

lemma binade_numeral:
  "binade (numeral k) x =
     (if 2 \<le> x then binade (pred_numeral k) (x / 2) + 1
      else if x < 1 then binade (pred_numeral k) (x * 2) - 1 else 0)"
  by (simp add: numeral_eq_Suc)

lemma floor_numeral_div: "\<lfloor>numeral a / numeral b :: rat\<rfloor> = numeral a div numeral b"
  using floor_divide_of_int_eq [of "numeral a" "numeral b", where ?'a = rat] by simp

lemmas double_eval =
  double_def js_add_def js_mul_def js_div_def Let_def binade_numeral pow2_def round_even_def
  floor_numeral_div

lemma double_literals:
  "double (2 / 5) = 3602879701896397 / 9007199254740992"
  "double (19 / 20) = 4278419646001971 / 4503599627370496"
  by (simp_all add: double_eval)

lemma first_quality_eval: "first_quality = 3039929748475085 / 4503599627370496"
  by (simp add: first_quality_def double_eval)

section \<open>The canvas of the normalizer\<close>

lemma Math_round_of_int: "Math_round (of_int n) = n"
  by (simp add: Math_round_def) linarith

lemma Math_round_near: "\<bar>of_int (Math_round x) - x\<bar> \<le> 1 / 2"
  unfolding Math_round_def by linarith

lemma Math_round_close: "\<bar>x - of_int n\<bar> < 1 / 2 \<Longrightarrow> Math_round x = n"
  unfolding Math_round_def by linarith

text \<open>The product of a whole number below \<open>2 ^ 24\<close> with the scale of an image wider than
  the maximal width: the two roundings move it by a relative error of at most
  \<open>3 / 2 ^ 53\<close>.\<close>

lemma js_mul_scale_err:
  assumes "0 < mw" "mw < iw" "iw < 2 ^ 24" "0 < n" "n < 2 ^ 24"
  shows "\<bar>js_mul (of_int n) (js_div (of_int mw) (of_int iw)) - of_int n * of_int mw / of_int iw\<bar>
           \<le> 3 * (of_int n * of_int mw / of_int iw) / 2 ^ 53"
    and "of_int n * of_int mw / of_int iw < (2 ^ 24 :: rat)"
proof -
  define r :: rat where "r = of_int mw / of_int iw"
  define h :: rat where "h = of_int n * r"
  define s where "s = double r"
  define y where "y = of_int n * s"
  have iw: "(0::rat) < of_int iw" "(of_int iw :: rat) < 2 ^ 24"
    using assms by (simp_all add: of_int_less_numeral_power_cancel_iff)
  have mw: "(1::rat) \<le> of_int mw" "(of_int mw :: rat) < of_int iw"
    using assms by simp_all
  have n: "(1::rat) \<le> of_int n" "(of_int n :: rat) < 2 ^ 24"
    using assms by (simp_all add: of_int_less_numeral_power_cancel_iff)
  have r1: "r < 1" using iw mw by (simp add: r_def)
  have "1 / 2 ^ 24 < 1 / (of_int iw :: rat)" using iw by (simp add: frac_less2)
  also have "\<dots> \<le> r" using iw mw by (simp add: r_def divide_right_mono)
  finally have r0: "1 / 2 ^ 24 < r" .
  have rpos: "0 < r" using r0 by (simp add: less_trans [OF _ r0])
  have e: "\<bar>s - r\<bar> \<le> r / 2 ^ 53"
    unfolding s_def using r0 r1 by (intro double_err) simp_all
  have hr: "r \<le> h" using n rpos by (simp add: h_def mult_le_cancel_right1)
  have "h < of_int n * 1" unfolding h_def using r1 n by (intro mult_strict_left_mono) simp_all
  then have h24: "h < 2 ^ 24" using n by simp
  have hpos: "0 < h" using hr rpos by linarith
  have "\<bar>y - h\<bar> = of_int n * \<bar>s - r\<bar>"
    using n by (simp add: y_def h_def right_diff_distrib [symmetric] abs_mult)
  also have "\<dots> \<le> of_int n * (r / 2 ^ 53)"
    using e n by (intro mult_left_mono) simp_all
  finally have yh: "\<bar>y - h\<bar> \<le> h / 2 ^ 53" by (simp add: h_def)
  have small: "h / 2 ^ 53 \<le> h / 2" using hpos by (simp add: frac_le)
  have y2: "h / 2 \<le> y" using yh small by linarith
  have "(1::rat) / 2 ^ 64 \<le> 1 / 2 ^ 24 / 2" by simp
  moreover have "1 / 2 ^ 24 / 2 < h / 2" using hr r0 by simp
  ultimately have ylo: "1 / 2 ^ 64 \<le> y" using y2 by linarith
  have yhi: "y \<le> 2 * h" using yh small by linarith
  then have "y \<le> 2 ^ 64" using h24 by simp
  then have "\<bar>double y - y\<bar> \<le> y / 2 ^ 53"
    using ylo by (intro double_err)
  also have "\<dots> \<le> 2 * h / 2 ^ 53" using yhi by (simp add: divide_right_mono)
  finally have "\<bar>double y - h\<bar> \<le> 3 * h / 2 ^ 53" using yh by linarith
  then show "\<bar>js_mul (of_int n) (js_div (of_int mw) (of_int iw)) - of_int n * of_int mw / of_int iw\<bar>
           \<le> 3 * (of_int n * of_int mw / of_int iw) / 2 ^ 53"
    by (simp add: js_mul_def js_div_def y_def s_def h_def r_def)
  show "of_int n * of_int mw / of_int iw < (2 ^ 24 :: rat)"
    using h24 by (simp add: h_def r_def)
qed

lemma canvas_size_width:
  assumes "0 < iw" "iw < 2 ^ 24" "0 < maxWidth"
  shows "fst (canvas_size iw ih maxWidth) = (if iw > maxWidth then maxWidth else iw)"
proof (cases "iw > maxWidth")
  case False
  have "iw < 2 ^ 53" using assms(2) by simp
  then have "double (of_int iw) = of_int iw"
    using assms(1) by (intro double_of_int) simp_all
  then show ?thesis
    using False by (simp add: canvas_size_def scale_of_def Let_def js_mul_def Math_round_of_int)
next
  case True
  define p where "p = js_mul (of_int iw) (js_div (of_int maxWidth) (of_int iw))"
  have iwr: "(0::rat) < of_int iw" using assms(1) by simp
  have m: "(of_int maxWidth :: rat) < 2 ^ 24"
    using True assms(2) by (simp add: of_int_less_numeral_power_cancel_iff)
  have "\<bar>p - of_int iw * of_int maxWidth / of_int iw\<bar> \<le> 3 * (of_int iw * of_int maxWidth / of_int iw) / 2 ^ 53"
    unfolding p_def using js_mul_scale_err(1) [OF assms(3) True assms(2) assms(1) assms(2)] .
  then have "\<bar>p - of_int maxWidth\<bar> \<le> 3 * of_int maxWidth / 2 ^ 53"
    using iwr by simp
  also have "\<dots> < 1 / 2" using m by simp
  finally have "Math_round p = maxWidth" by (rule Math_round_close)
  then show ?thesis
    using True by (simp add: canvas_size_def scale_of_def Let_def p_def)
qed

lemma canvas_size_height_same:
  assumes "iw \<le> maxWidth" "0 \<le> ih" "ih < 2 ^ 24"
  shows "snd (canvas_size iw ih maxWidth) = ih"
proof -
  have "ih < 2 ^ 53" using assms(3) by simp
  then have "double (of_int ih) = of_int ih"
    using assms(2) by (intro double_of_int) simp_all
  then show ?thesis
    using assms(1) by (simp add: canvas_size_def scale_of_def Let_def js_mul_def Math_round_of_int)
qed

lemma canvas_size_ratio:
  assumes "0 < iw" "iw < 2 ^ 24" "0 \<le> ih" "ih < 2 ^ 24" "0 < maxWidth"
  shows "2 * \<bar>snd (canvas_size iw ih maxWidth) * iw - ih * fst (canvas_size iw ih maxWidth)\<bar> \<le> iw"
proof (cases "iw > maxWidth")
  case False
  then show ?thesis using assms
    by (simp add: canvas_size_width canvas_size_height_same)
next
  case True
  define p where "p = js_mul (of_int ih) (js_div (of_int maxWidth) (of_int iw))"
  define nh where "nh = Math_round p"
  have nh: "snd (canvas_size iw ih maxWidth) = nh"
    using True by (simp add: canvas_size_def scale_of_def Let_def p_def nh_def)
  have iwr: "(0::rat) < of_int iw" using assms(1) by simp
  show ?thesis
  proof (cases "ih = 0")
    case z: True
    have "nh = 0" by (simp add: nh_def p_def z js_mul_def double_def Math_round_def floor_eq_iff)
    then show ?thesis unfolding nh using z assms(1) by simp
  next
    case False
    then have ih: "0 < ih" using assms(3) by simp
    define h :: rat where "h = of_int ih * of_int maxWidth / of_int iw"
    have e: "\<bar>p - h\<bar> \<le> 3 * h / 2 ^ 53" and h24: "h < 2 ^ 24"
      unfolding p_def h_def
      using js_mul_scale_err [OF assms(5) True assms(2) ih assms(4)] by simp_all
    have "3 * h / 2 ^ 53 \<le> 3 * 2 ^ 24 / 2 ^ 53" using h24 by simp
    then have e2: "\<bar>p - h\<bar> \<le> 3 / 2 ^ 29" using e by simp
    have "\<bar>of_int nh - h\<bar> \<le> 1 / 2 + 3 / 2 ^ 29"
      using Math_round_near [of p] e2 unfolding nh_def by linarith
    then have "\<bar>of_int nh - h\<bar> * of_int iw \<le> (1 / 2 + 3 / 2 ^ 29) * of_int iw"
      using iwr by (intro mult_right_mono) simp_all
    then have "\<bar>(of_int nh - h) * of_int iw\<bar> \<le> (1 / 2 + 3 / 2 ^ 29) * of_int iw"
      using iwr by (simp add: abs_mult)
    moreover have "(of_int nh - h) * of_int iw = of_int (nh * iw - ih * maxWidth)"
      using iwr by (simp add: h_def left_diff_distrib)
    moreover have "3 / 2 ^ 29 * (of_int iw :: rat) \<le> 3 / 2 ^ 29 * 2 ^ 24"
      using assms(2) by (intro mult_left_mono) (simp_all add: of_int_less_numeral_power_cancel_iff less_imp_le)
    ultimately have "\<bar>of_int (nh * iw - ih * maxWidth) :: rat\<bar> \<le> of_int iw / 2 + 3 / 32"
      by (simp add: algebra_simps)
    then have "(of_int (2 * \<bar>nh * iw - ih * maxWidth\<bar>) :: rat) < of_int (iw + 1)"
      by simp
    then have "2 * \<bar>nh * iw - ih * maxWidth\<bar> < iw + 1"
      by (simp only: of_int_less_iff)
    then show ?thesis using True assms by (simp add: nh canvas_size_width)
  qed
qed

text \<open>The height of an image of 19968 by 117 pixels scaled to the width 1280 is exactly
  7.5; the double product is just below it, and the canvas is 7 pixels high.\<close>

lemma canvas_below_tie: "canvas_size 19968 117 1280 = (1280, 7)"
proof -
  have e: "js_div 1280 19968 = 288692283805801 / 4503599627370496"
    "js_mul 19968 (288692283805801 / 4503599627370496) = 1280"
    "js_mul 117 (288692283805801 / 4503599627370496) = 8444249301319679 / 1125899906842624"
    by (simp_all add: double_eval)
  show ?thesis
    by (simp add: canvas_size_def scale_of_def Let_def e Math_round_def floor_numeral_div)
qed

lemma example_canvas: "canvas_size 2560 1920 1280 = (1280, 960)"
proof -
  have e: "js_div 1280 2560 = 1 / 2" "js_mul 2560 (1 / 2) = 1280" "js_mul 1920 (1 / 2) = 960"
    by (simp_all add: double_eval)
  show ?thesis
    by (simp add: canvas_size_def scale_of_def Let_def e Math_round_def floor_numeral_div)
qed

lemma new_events_append: "io_log w' = io_log w @ es \<Longrightarrow> new_events w w' = es"
  by (simp add: new_events_def)

lemma compressImage_events:
  "new_events w (snd (compressImage br f maxWidth a b w)) =
     CreateObjectURL (url_count w) # LoadImage f #
     (case image_size br f of
        None \<Rightarrow> []
      | Some (iw, ih) \<Rightarrow>
          if \<not> getContext br f then []
          else map (ToBlob (fst (canvas_size iw ih maxWidth)) (snd (canvas_size iw ih maxWidth)))
                 (snd (search_of br f maxWidth a b))
               @ (case fst (search_of br f maxWidth a b) of
                    None \<Rightarrow> [] | Some bl \<Rightarrow> [RevokeObjectURL (url_count w)]))"
  by (simp add: compressImage_def search_of_def createObjectURL_def revokeObjectURL_def emit_simps
        new_events_def Let_def split_def split: option.splits)

text \<open>Evaluating the search on numerals, one iteration at a time.\<close>

lemma quality_search_step:
  "quality_search toBlob mn mx (numeral k) low high best qs =
     (if toBlob (js_div (js_add low high) 2) = None then (best, qs @ [js_div (js_add low high) 2])
      else if blob_size (the (toBlob (js_div (js_add low high) 2))) > mx
        then quality_search toBlob mn mx (pred_numeral k) low (js_div (js_add low high) 2)
               (toBlob (js_div (js_add low high) 2)) (qs @ [js_div (js_add low high) 2])
      else if blob_size (the (toBlob (js_div (js_add low high) 2))) < mn
        then quality_search toBlob mn mx (pred_numeral k) (js_div (js_add low high) 2) high
               (toBlob (js_div (js_add low high) 2)) (qs @ [js_div (js_add low high) 2])
      else (toBlob (js_div (js_add low high) 2), qs @ [js_div (js_add low high) 2]))"
  by (simp add: numeral_eq_Suc Let_def split: option.splits)

lemma quality_search_step1:
  "quality_search toBlob mn mx 1 low high best qs =
     (if toBlob (js_div (js_add low high) 2) = None then (best, qs @ [js_div (js_add low high) 2])
      else (toBlob (js_div (js_add low high) 2), qs @ [js_div (js_add low high) 2]))"
  by (simp add: Let_def split: option.splits)

lemma example_first_encode:
  "canvas_toBlob example_browser f nw nh first_quality
     = Some \<lparr>blob_size = 270000, blob_type = ''image/jpeg''\<rparr>"
  by (simp add: example_browser_def first_quality_eval floor_numeral_div)

lemma example_search:
  "quality_search (canvas_toBlob example_browser f 1280 960) 204800 409600 7
     (double (2 / 5)) (double (19 / 20)) None [] =
    (Some \<lparr>blob_size = 270000, blob_type = ''image/jpeg''\<rparr>, [first_quality])"
  by (simp add: quality_search_step first_quality_def [symmetric] example_first_encode)

lemma example_compress:
  "compressImage example_browser (photo n k) 1280 200 400 w =
     (Inr \<lparr>blob_size = 270000, blob_type = ''image/jpeg'', file_name = strip_extension n @ ''.jpg''\<rparr>,
      w\<lparr>io_log := io_log w @ [CreateObjectURL (url_count w), LoadImage (photo n k),
             ToBlob 1280 960 first_quality, RevokeObjectURL (url_count w)], url_count := Suc (url_count w)\<rparr>)"
proof -
  have i: "image_size example_browser (photo n k) = Some (2560, 1920)"
    and g: "getContext example_browser (photo n k)"
    by (simp_all add: example_browser_def)
  have n: "file_name (photo n k) = n"
    by (simp add: photo_def)
  show ?thesis
    by (simp add: compressImage_def Let_def i g n example_canvas example_search createObjectURL_def
        emit_def revokeObjectURL_def new_File_def)
qed

section \<open>The quality search\<close>

lemma monotonic_size_total:
  "monotonic_size tb \<Longrightarrow> 2 / 5 \<le> q \<Longrightarrow> q \<le> 19 / 20 \<Longrightarrow> \<exists>b. tb q = Some b"
  unfolding monotonic_size_def by (metis order_refl)

lemma monotonic_sizeD:
  "monotonic_size tb \<Longrightarrow> 2 / 5 \<le> q1 \<Longrightarrow> q1 \<le> q2 \<Longrightarrow> q2 \<le> 19 / 20
     \<Longrightarrow> tb q1 = Some b1 \<Longrightarrow> tb q2 = Some b2 \<Longrightarrow> blob_size b1 \<le> blob_size b2"
  unfolding monotonic_size_def by (metis option.inject)

lemma band_betweenD:
  "band_between tb mn mx a b \<Longrightarrow> a \<le> q \<Longrightarrow> q \<le> b \<Longrightarrow> \<exists>bl. tb q = Some bl \<and> in_band mn mx bl"
  unfolding band_between_def by blast

lemma quality_search_count:
  "length (snd (quality_search tb mn mx n low high best qs)) \<le> length qs + n"
proof (induction n arbitrary: low high best qs)
  case 0
  show ?case by simp
next
  case (Suc n)
  define q where "q = js_div (js_add low high) 2"
  show ?case
  proof (cases "tb q")
    case None
    then show ?thesis by (simp add: Let_def q_def [symmetric])
  next
    case (Some b)
    show ?thesis
      using Suc.IH [of low q "Some b" "qs @ [q]"] Suc.IH [of q high "Some b" "qs @ [q]"]
      by (simp add: Some Let_def q_def [symmetric])
  qed
qed

text \<open>The qualities of a run and the blob it keeps: every encode but the last yields a
  blob outside the band, the run ends before its last iteration only on a \<^verbatim>\<open>null\<close> or on
  a blob inside the band, and the blob kept is the one of the last encode that yielded
  one.\<close>

lemma quality_search_trace:
  "\<exists>new. snd (quality_search tb mn mx n low high best qs) = qs @ new
     \<and> (\<forall>q \<in> set (butlast new). \<exists>b. tb q = Some b \<and> \<not> in_band mn mx b)
     \<and> (length new < n \<longrightarrow>
          new \<noteq> [] \<and> (tb (last new) = None \<or> (\<exists>b. tb (last new) = Some b \<and> in_band mn mx b)))
     \<and> fst (quality_search tb mn mx n low high best qs) =
         (if new = [] then best
          else case tb (last new) of
                 Some b \<Rightarrow> Some b
               | None \<Rightarrow> if butlast new = [] then best else tb (last (butlast new)))"
proof (induction n arbitrary: low high best qs)
  case 0
  show ?case by simp
next
  case (Suc n)
  define q where "q = js_div (js_add low high) 2"
  show ?case
  proof (cases "tb q")
    case None
    have "snd (quality_search tb mn mx (Suc n) low high best qs) = qs @ [q]"
      "fst (quality_search tb mn mx (Suc n) low high best qs) = best"
      using None by (simp_all add: Let_def q_def [symmetric])
    then show ?thesis using None by (intro exI [of _ "[q]"]) simp
  next
    case (Some b)
    have one: "?thesis"
      if "quality_search tb mn mx (Suc n) low high best qs = (Some b, qs @ [q])"
        and "in_band mn mx b"
      using that Some by (intro exI [of _ "[q]"]) simp
    have more: "?thesis"
      if r: "quality_search tb mn mx (Suc n) low high best qs =
               quality_search tb mn mx n lo hi (Some b) (qs @ [q])"
        and out: "\<not> in_band mn mx b" for lo hi
    proof -
      obtain new where new: "snd (quality_search tb mn mx n lo hi (Some b) (qs @ [q])) = (qs @ [q]) @ new"
          and nn: "\<forall>q \<in> set (butlast new). \<exists>b. tb q = Some b \<and> \<not> in_band mn mx b"
          and len: "length new < n \<longrightarrow>
             new \<noteq> [] \<and> (tb (last new) = None \<or> (\<exists>b. tb (last new) = Some b \<and> in_band mn mx b))"
          and res: "fst (quality_search tb mn mx n lo hi (Some b) (qs @ [q])) =
             (if new = [] then Some b
              else case tb (last new) of
                     Some b' \<Rightarrow> Some b'
                   | None \<Rightarrow> if butlast new = [] then Some b else tb (last (butlast new)))"
        using Suc.IH [of lo hi "Some b" "qs @ [q]"] by blast
      show ?thesis
      proof (intro exI [of _ "q # new"] conjI)
        show "snd (quality_search tb mn mx (Suc n) low high best qs) = qs @ q # new"
          unfolding r using new by simp
        show "\<forall>q \<in> set (butlast (q # new)). \<exists>b. tb q = Some b \<and> \<not> in_band mn mx b"
          using nn Some out by simp
        show "length (q # new) < Suc n \<longrightarrow>
           q # new \<noteq> [] \<and> (tb (last (q # new)) = None
              \<or> (\<exists>b. tb (last (q # new)) = Some b \<and> in_band mn mx b))"
          using len by auto
        show "fst (quality_search tb mn mx (Suc n) low high best qs) =
           (if q # new = [] then best
            else case tb (last (q # new)) of
                   Some b \<Rightarrow> Some b
                 | None \<Rightarrow> if butlast (q # new) = [] then best else tb (last (butlast (q # new))))"
          unfolding r using res Some by (simp split: option.splits)
      qed
    qed
    show ?thesis
    proof (cases "blob_size b > mx")
      case True
      then show ?thesis using Some
        by (intro more [of low q]) (simp_all add: Let_def q_def [symmetric] in_band_def)
    next
      case False
      show ?thesis
      proof (cases "blob_size b < mn")
        case True
        then show ?thesis using Some False
          by (intro more [of q high]) (simp_all add: Let_def q_def [symmetric] in_band_def)
      next
        case nl: False
        then show ?thesis using Some False
          by (intro one) (simp_all add: Let_def q_def [symmetric] in_band_def)
      qed
    qed
  qed
qed

text \<open>Every quality of a run is the midpoint of the bounds the earlier encodes left.\<close>

lemma quality_search_midpoints:
  "snd (quality_search tb mn mx n low high best qs) = qs @ new \<Longrightarrow> i < length new
     \<Longrightarrow> new ! i = midpoint (foldl (narrow tb mn mx) (low, high) (take i new))"
proof (induction n arbitrary: low high best qs new i)
  case 0
  then show ?case by simp
next
  case (Suc n)
  define q where "q = js_div (js_add low high) 2"
  have q: "midpoint (low, high) = q" by (simp add: midpoint_def q_def)
  have single: ?case if "snd (quality_search tb mn mx (Suc n) low high best qs) = qs @ [q]"
    using that Suc.prems q by auto
  have more: ?case
    if r: "quality_search tb mn mx (Suc n) low high best qs =
             quality_search tb mn mx n lo hi (Some b) (qs @ [q])"
      and nr: "narrow tb mn mx (low, high) q = (lo, hi)" for lo hi b
  proof -
    obtain new' where new': "snd (quality_search tb mn mx n lo hi (Some b) (qs @ [q])) = (qs @ [q]) @ new'"
      using quality_search_trace [of tb mn mx n lo hi "Some b" "qs @ [q]"] by blast
    then have new: "new = q # new'"
      using Suc.prems(1) unfolding r by simp
    show ?thesis
    proof (cases i)
      case 0
      then show ?thesis by (simp add: new q)
    next
      case (Suc j)
      then have j: "j < length new'" using Suc.prems(2) new by simp
      show ?thesis
        using Suc.IH [OF new' j] by (simp add: new Suc nr)
    qed
  qed
  show ?case
  proof (cases "tb q")
    case None
    then show ?thesis by (intro single) (simp add: Let_def q_def [symmetric])
  next
    case (Some b)
    show ?thesis
    proof (cases "blob_size b > mx")
      case True
      then show ?thesis using Some
        by (intro more [of low q b]) (simp_all add: Let_def q_def [symmetric] narrow_def)
    next
      case False
      show ?thesis
      proof (cases "blob_size b < mn")
        case True
        then show ?thesis using Some False
          by (intro more [of q high b]) (simp_all add: Let_def q_def [symmetric] narrow_def)
      next
        case nl: False
        then show ?thesis using Some False
          by (intro single) (simp add: Let_def q_def [symmetric])
      qed
    qed
  qed
qed

lemma quality_search_first:
  "\<exists>rest. snd (quality_search tb mn mx (Suc n) low high best qs)
            = qs @ js_div (js_add low high) 2 # rest"
proof -
  define q where "q = js_div (js_add low high) 2"
  have p: "\<exists>new. snd (quality_search tb mn mx n lo hi bb (qs @ [q])) = (qs @ [q]) @ new" for lo hi bb
    using quality_search_trace [of tb mn mx n lo hi bb "qs @ [q]"] by blast
  show ?thesis
    using p [of low q] p [of q high]
    by (cases "tb q") (auto simp: Let_def q_def [symmetric])
qed

text \<open>A midpoint is within \<open>1 / 2 ^ 51\<close> of the exact one.\<close>

lemma midpoint_err:
  assumes "3 / 8 \<le> low" "low \<le> high" "high \<le> 1"
  shows "\<bar>js_div (js_add low high) 2 - (low + high) / 2\<bar> \<le> 1 / 2 ^ 51"
proof -
  define t where "t = low + high"
  define s where "s = double t"
  define d where "d = double (s / 2)"
  define u :: rat where "u = 1 / 2 ^ 53"
  have u: "0 < u" "u \<le> 1 / 8" "4 * u = 1 / 2 ^ 51" by (simp_all add: u_def)
  have t: "3 / 4 \<le> t" "t \<le> 2" using assms by (simp_all add: t_def)
  have "\<bar>s - t\<bar> \<le> t / 2 ^ 53"
    unfolding s_def using t by (intro double_err) simp_all
  also have "\<dots> = t * u" by (simp add: u_def)
  also have "\<dots> \<le> 2 * u" using t u(1) by (intro mult_right_mono) simp_all
  finally have e1: "\<bar>s - t\<bar> \<le> 2 * u" .
  have s: "1 / 2 \<le> s" "s \<le> 4" using e1 t u(2) by linarith+
  have "\<bar>d - s / 2\<bar> \<le> s / 2 / 2 ^ 53"
    unfolding d_def using s by (intro double_err) simp_all
  also have "\<dots> = s / 2 * u" by (simp add: u_def)
  also have "\<dots> \<le> 2 * u" using s u(1) by (intro mult_right_mono) simp_all
  finally have e2: "\<bar>d - s / 2\<bar> \<le> 2 * u" .
  have "\<bar>d - t / 2\<bar> \<le> 4 * u"
    using e1 e2 u(1) by linarith
  then show ?thesis
    by (simp only: u(3) js_div_def js_add_def s_def d_def t_def)
qed

text \<open>While no encode lies inside the band, the interval of the search contains every
  stretch of qualities whose sizes lie inside the band, and after \<open>n\<close> more halvings it is
  too short for one of length \<open>b - a\<close>.\<close>

lemma quality_search_finds:
  assumes mono: "monotonic_size tb"
    and band: "band_between tb mn mx a b"
    and ab: "a \<le> b"
  shows "2 / 5 \<le> low \<Longrightarrow> high \<le> 19 / 20 \<Longrightarrow> low \<le> a \<Longrightarrow> b \<le> high
     \<Longrightarrow> high - low < 2 ^ n * (b - a - 2 / 2 ^ 51) + 2 / 2 ^ 51
     \<Longrightarrow> \<exists>bl. fst (quality_search tb mn mx n low high best qs) = Some bl \<and> in_band mn mx bl"
proof (induction n arbitrary: low high best qs)
  case 0
  then show ?case using ab by simp
next
  case (Suc n)
  define e :: rat where "e = 1 / 2 ^ 51"
  define D where "D = b - a - 2 * e"
  define P where "P = 2 ^ n * D"
  define q where "q = js_div (js_add low high) 2"
  define m where "m = low + high"
  have e: "0 < e" by (simp add: e_def)
  have w: "high - low < 2 * P + 2 * e"
    using Suc.prems(5) by (simp add: P_def D_def e_def)
  have Dpos: "0 < D"
  proof (rule ccontr)
    assume "\<not> 0 < D"
    then have "D \<le> 0" by simp
    moreover have "(1::rat) \<le> 2 ^ Suc n" by (rule one_le_power) simp
    ultimately have "2 ^ Suc n * D \<le> 1 * D" by (intro mult_right_mono_neg)
    then have "2 * P \<le> D" by (simp add: P_def)
    then show False using w Suc.prems(3,4) unfolding D_def by linarith
  qed
  have wide: "2 * e < high - low"
    using Dpos Suc.prems(3,4) unfolding D_def by linarith
  have "\<bar>q - (low + high) / 2\<bar> \<le> 1 / 2 ^ 51"
    unfolding q_def using Suc.prems(1,2) wide e by (intro midpoint_err) linarith+
  then have qm: "\<bar>q - m / 2\<bar> \<le> e" by (simp add: e_def m_def)
  have qlo: "low < q" and qhi: "q < high"
    using qm wide m_def by linarith+
  have q1: "2 / 5 \<le> q" and q2: "q \<le> 19 / 20"
    using qlo qhi Suc.prems(1,2) by linarith+
  obtain bq where bq: "tb q = Some bq"
    using monotonic_size_total [OF mono q1 q2] by blast
  obtain ba where ba: "tb a = Some ba" "in_band mn mx ba"
    using band_betweenD [OF band order_refl ab] by blast
  obtain bb where bb: "tb b = Some bb" "in_band mn mx bb"
    using band_betweenD [OF band ab order_refl] by blast
  have a1: "2 / 5 \<le> a" and b1: "b \<le> 19 / 20"
    using Suc.prems(1,2,3,4) by linarith+
  show ?case
  proof (cases "blob_size bq > mx")
    case True
    have "b < q"
    proof (rule ccontr)
      assume "\<not> b < q"
      then have "q \<le> b" by simp
      then have "blob_size bq \<le> blob_size bb"
        using monotonic_sizeD [OF mono q1 _ b1 bq bb(1)] by simp
      then show False using True bb(2) by (simp add: in_band_def)
    qed
    then have b': "b \<le> q" by simp
    have w': "q - low < 2 ^ n * (b - a - 2 / 2 ^ 51) + 2 / 2 ^ 51"
    proof -
      have "q - low < P + 2 * e" using qm w m_def by linarith
      then show ?thesis by (simp add: P_def D_def e_def)
    qed
    have "\<exists>bl. fst (quality_search tb mn mx n low q (Some bq) (qs @ [q])) = Some bl \<and> in_band mn mx bl"
      using Suc.IH [OF Suc.prems(1) q2 Suc.prems(3) b' w'] .
    then show ?thesis
      using True bq by (simp add: Let_def q_def [symmetric])
  next
    case False
    show ?thesis
    proof (cases "blob_size bq < mn")
      case True
      have "q < a"
      proof (rule ccontr)
        assume "\<not> q < a"
        then have "a \<le> q" by simp
        then have "blob_size ba \<le> blob_size bq"
          using monotonic_sizeD [OF mono a1 _ q2 ba(1) bq] by simp
        then show False using True ba(2) by (simp add: in_band_def)
      qed
      then have a': "q \<le> a" by simp
      have w': "high - q < 2 ^ n * (b - a - 2 / 2 ^ 51) + 2 / 2 ^ 51"
      proof -
        have "high - q < P + 2 * e" using qm w m_def by linarith
        then show ?thesis by (simp add: P_def D_def e_def)
      qed
      have "\<exists>bl. fst (quality_search tb mn mx n q high (Some bq) (qs @ [q])) = Some bl \<and> in_band mn mx bl"
        using Suc.IH [OF q1 Suc.prems(2) a' Suc.prems(4) w'] .
      then show ?thesis
        using True False bq by (simp add: Let_def q_def [symmetric])
    next
      case notlt: False
      then show ?thesis
        using False bq by (simp add: Let_def q_def [symmetric] in_band_def)
    qed
  qed
qed

lemma filter_is_ToBlob_map: "filter is_ToBlob (map (ToBlob nw nh) qs) = map (ToBlob nw nh) qs"
  by (induction qs) simp_all

lemma compressImage_codec_calls:
  "length (filter is_ToBlob (new_events w (snd (compressImage br f maxWidth a b w)))) \<le> 7"
proof -
  have "length (snd (search_of br f maxWidth a b)) \<le> 7"
    using quality_search_count [of _ _ _ 7 _ _ None "[]"]
    by (simp add: search_of_def split: option.splits)
  then show ?thesis
    by (simp add: compressImage_events filter_is_ToBlob_map split: option.splits)
qed

lemma compressImage_ToBlob_events:
  assumes "image_size br f = Some (iw, ih)" and "getContext br f"
    and "canvas_size iw ih maxWidth = (nw, nh)"
  shows "filter is_ToBlob (new_events w (snd (compressImage br f maxWidth a b w)))
           = map (ToBlob nw nh) (snd (search_of br f maxWidth a b))"
  using assms by (simp add: compressImage_events filter_is_ToBlob_map split: option.splits)

lemma compressImage_result:
  assumes "image_size br f = Some (iw, ih)"
  shows "fst (compressImage br f maxWidth a b w) =
           (if \<not> getContext br f then Inr f
            else case fst (search_of br f maxWidth a b) of
                   None \<Rightarrow> Inr f
                 | Some bl \<Rightarrow> Inr (new_File bl (strip_extension (file_name f) @ ''.jpg'') ''image/jpeg''))"
  using assms
  by (simp add: compressImage_def search_of_def createObjectURL_def Let_def split_def
        split: option.splits)

lemma compressImage_in_band:
  assumes "image_size br f = Some (iw, ih)" and "getContext br f"
    and "canvas_size iw ih maxWidth = (nw, nh)"
    and "monotonic_size (canvas_toBlob br f nw nh)"
    and "band_between (canvas_toBlob br f nw nh) (tmin * 1024) (tmax * 1024) a b"
    and "2 / 5 \<le> a" and "b \<le> 19 / 20" and "11 / 2500 \<le> b - a"
  shows "\<exists>g. fst (compressImage br f maxWidth tmin tmax w) = Inr g
              \<and> tmin * 1024 \<le> blob_size g \<and> blob_size g \<le> tmax * 1024"
proof -
  define lo :: rat where "lo = 3602879701896397 / 9007199254740992"
  define hi :: rat where "hi = 4278419646001971 / 4503599627370496"
  define a' where "a' = max a lo"
  define b' where "b' = min b hi"
  define e :: rat where "e = 1 / 2 ^ 51"
  have lh: "2 / 5 \<le> lo" "lo \<le> 2 / 5 + e" "hi \<le> 19 / 20" "19 / 20 - e \<le> hi" "e \<le> 1 / 100000"
    by (simp_all add: lo_def hi_def e_def)
  have band: "band_between (canvas_toBlob br f nw nh) (tmin * 1024) (tmax * 1024) a' b'"
    using assms(5) by (simp add: band_between_def a'_def b'_def)
  have ab: "a' \<le> b'" "lo \<le> a'" "b' \<le> hi"
    using lh assms(6,7,8) unfolding a'_def b'_def by linarith+
  have len: "b - a - 2 * e \<le> b' - a'"
    using lh assms(6,7,8) unfolding a'_def b'_def by linarith
  define d where "d = b' - a' - 2 * e"
  have "11 / 2500 - 4 * e \<le> d"
    using len assms(8) unfolding d_def by linarith
  then have "hi - lo < 128 * d + 2 * e"
    using lh by linarith
  then have w: "hi - lo < 2 ^ 7 * (b' - a' - 2 / 2 ^ 51) + 2 / 2 ^ 51"
    by (simp add: e_def d_def)
  have "\<exists>bl. fst (quality_search (canvas_toBlob br f nw nh) (tmin * 1024) (tmax * 1024) 7
                lo hi None []) = Some bl \<and> in_band (tmin * 1024) (tmax * 1024) bl"
    using quality_search_finds [OF assms(4) band ab(1) lh(1) lh(3) ab(2) ab(3) w] .
  then obtain bl where b: "fst (search_of br f maxWidth tmin tmax) = Some bl"
      and inb: "in_band (tmin * 1024) (tmax * 1024) bl"
    using assms(1,3) by (auto simp: search_of_def double_literals lo_def hi_def)
  have "fst (compressImage br f maxWidth tmin tmax w) =
          Inr (new_File bl (strip_extension (file_name f) @ ''.jpg'') ''image/jpeg'')"
    using assms(2) b by (simp add: compressImage_result [OF assms(1)])
  then show ?thesis
    using inb by (simp add: in_band_def new_File_def)
qed

lemma search_of_first:
  assumes "image_size br f = Some (iw, ih)" and "canvas_size iw ih maxWidth = (nw, nh)"
  shows "snd (search_of br f maxWidth a b) \<noteq> [] \<and> hd (snd (search_of br f maxWidth a b)) = first_quality"
  using assms quality_search_first [of "canvas_toBlob br f nw nh" "a * 1024" "b * 1024" 6
      "double (2 / 5)" "double (19 / 20)" None "[]"]
  by (auto simp: search_of_def first_quality_def eval_nat_numeral simp del: quality_search.simps)

text \<open>The qualities \<^verbatim>\<open>compressImage\<close> encodes at, and the blob it keeps.\<close>

lemma search_of_shape:
  assumes "image_size br f = Some (iw, ih)" and "canvas_size iw ih maxWidth = (nw, nh)"
  shows "snd (search_of br f maxWidth a b) \<noteq> []"
    and "hd (snd (search_of br f maxWidth a b)) = first_quality"
    and "\<forall>q \<in> set (butlast (snd (search_of br f maxWidth a b))).
           \<exists>bl. canvas_toBlob br f nw nh q = Some bl \<and> \<not> in_band (a * 1024) (b * 1024) bl"
    and "fst (search_of br f maxWidth a b) =
           (case canvas_toBlob br f nw nh (last (snd (search_of br f maxWidth a b))) of
              Some bl \<Rightarrow> Some bl
            | None \<Rightarrow> if butlast (snd (search_of br f maxWidth a b)) = [] then None
                      else canvas_toBlob br f nw nh (last (butlast (snd (search_of br f maxWidth a b)))))"
    and "length (snd (search_of br f maxWidth a b)) < 7 \<longrightarrow>
           canvas_toBlob br f nw nh (last (snd (search_of br f maxWidth a b))) = None
           \<or> (\<exists>bl. canvas_toBlob br f nw nh (last (snd (search_of br f maxWidth a b))) = Some bl
                 \<and> in_band (a * 1024) (b * 1024) bl)"
    and "\<forall>i < length (snd (search_of br f maxWidth a b)).
           snd (search_of br f maxWidth a b) ! i =
             midpoint (bounds_after (canvas_toBlob br f nw nh) (a * 1024) (b * 1024)
                         (take i (snd (search_of br f maxWidth a b))))"
proof -
  show n: "snd (search_of br f maxWidth a b) \<noteq> []"
    and "hd (snd (search_of br f maxWidth a b)) = first_quality"
    using search_of_first [OF assms] by simp_all
  have so: "search_of br f maxWidth a b =
      quality_search (canvas_toBlob br f nw nh) (a * 1024) (b * 1024) 7
        (double (2 / 5)) (double (19 / 20)) None []"
    using assms by (simp add: search_of_def)
  obtain new where new: "snd (search_of br f maxWidth a b) = new"
      and nn: "\<forall>q \<in> set (butlast new).
                 \<exists>bl. canvas_toBlob br f nw nh q = Some bl \<and> \<not> in_band (a * 1024) (b * 1024) bl"
      and len: "length new < 7 \<longrightarrow>
           new \<noteq> [] \<and> (canvas_toBlob br f nw nh (last new) = None
             \<or> (\<exists>bl. canvas_toBlob br f nw nh (last new) = Some bl \<and> in_band (a * 1024) (b * 1024) bl))"
      and res: "fst (search_of br f maxWidth a b) =
         (if new = [] then None
          else case canvas_toBlob br f nw nh (last new) of
                 Some bl \<Rightarrow> Some bl
               | None \<Rightarrow> if butlast new = [] then None else canvas_toBlob br f nw nh (last (butlast new)))"
    using quality_search_trace [of "canvas_toBlob br f nw nh" "a * 1024" "b * 1024" 7
        "double (2 / 5)" "double (19 / 20)" None "[]"]
    unfolding so by auto
  show "\<forall>q \<in> set (butlast (snd (search_of br f maxWidth a b))).
           \<exists>bl. canvas_toBlob br f nw nh q = Some bl \<and> \<not> in_band (a * 1024) (b * 1024) bl"
    using nn unfolding new by simp
  show "fst (search_of br f maxWidth a b) =
           (case canvas_toBlob br f nw nh (last (snd (search_of br f maxWidth a b))) of
              Some bl \<Rightarrow> Some bl
            | None \<Rightarrow> if butlast (snd (search_of br f maxWidth a b)) = [] then None
                      else canvas_toBlob br f nw nh (last (butlast (snd (search_of br f maxWidth a b)))))"
    using res n unfolding new by simp
  show "length (snd (search_of br f maxWidth a b)) < 7 \<longrightarrow>
           canvas_toBlob br f nw nh (last (snd (search_of br f maxWidth a b))) = None
           \<or> (\<exists>bl. canvas_toBlob br f nw nh (last (snd (search_of br f maxWidth a b))) = Some bl
                 \<and> in_band (a * 1024) (b * 1024) bl)"
    using len unfolding new by simp
  have "snd (quality_search (canvas_toBlob br f nw nh) (a * 1024) (b * 1024) 7
          (double (2 / 5)) (double (19 / 20)) None []) = [] @ new"
    using new unfolding so by simp
  then show "\<forall>i < length (snd (search_of br f maxWidth a b)).
           snd (search_of br f maxWidth a b) ! i =
             midpoint (bounds_after (canvas_toBlob br f nw nh) (a * 1024) (b * 1024)
                         (take i (snd (search_of br f maxWidth a b))))"
    using quality_search_midpoints [of "canvas_toBlob br f nw nh" "a * 1024" "b * 1024" 7
        "double (2 / 5)" "double (19 / 20)" None "[]" new]
    unfolding new bounds_after_def by blast
qed

lemma compressImage_search_run:
  assumes "image_size br f = Some (iw, ih)" and "getContext br f"
    and "canvas_size iw ih maxWidth = (nw, nh)"
  shows "\<exists>qs. filter is_ToBlob (new_events w (snd (compressImage br f maxWidth tmin tmax w)))
                 = map (ToBlob nw nh) qs
           \<and> qs \<noteq> []
           \<and> (\<forall>i < length qs.
                 qs ! i = midpoint (bounds_after (canvas_toBlob br f nw nh) (tmin * 1024) (tmax * 1024)
                                       (take i qs)))
           \<and> (\<forall>q \<in> set (butlast qs).
                 \<exists>bl. canvas_toBlob br f nw nh q = Some bl \<and> \<not> in_band (tmin * 1024) (tmax * 1024) bl)
           \<and> (length qs < 7 \<longrightarrow>
                 canvas_toBlob br f nw nh (last qs) = None
                 \<or> (\<exists>bl. canvas_toBlob br f nw nh (last qs) = Some bl
                       \<and> in_band (tmin * 1024) (tmax * 1024) bl))
           \<and> (\<forall>bl. canvas_toBlob br f nw nh (last qs) = Some bl \<longrightarrow>
                 fst (compressImage br f maxWidth tmin tmax w)
                   = Inr (new_File bl (strip_extension (file_name f) @ ''.jpg'') ''image/jpeg''))"
proof -
  define qs where "qs = snd (search_of br f maxWidth tmin tmax)"
  note s = search_of_shape [OF assms(1,3), of tmin tmax, folded qs_def]
  have ev: "filter is_ToBlob (new_events w (snd (compressImage br f maxWidth tmin tmax w)))
              = map (ToBlob nw nh) qs"
    using compressImage_ToBlob_events [OF assms] by (simp add: qs_def)
  have r: "\<forall>bl. canvas_toBlob br f nw nh (last qs) = Some bl \<longrightarrow>
                 fst (compressImage br f maxWidth tmin tmax w)
                   = Inr (new_File bl (strip_extension (file_name f) @ ''.jpg'') ''image/jpeg'')"
    using assms(2) s(4) by (simp add: compressImage_result [OF assms(1)])
  show ?thesis
    using ev r s(1,3,5,6) by blast
qed

lemma compressImage_stops_early:
  assumes "image_size br f = Some (iw, ih)" and "getContext br f"
    and "canvas_size iw ih maxWidth = (nw, nh)"
    and "canvas_toBlob br f nw nh first_quality = Some bm"
    and "in_band (tmin * 1024) (tmax * 1024) bm"
  shows "filter is_ToBlob (new_events w (snd (compressImage br f maxWidth tmin tmax w)))
           = [ToBlob nw nh first_quality]
       \<and> fst (compressImage br f maxWidth tmin tmax w)
           = Inr (new_File bm (strip_extension (file_name f) @ ''.jpg'') ''image/jpeg'')"
proof -
  have s: "search_of br f maxWidth tmin tmax = (Some bm, [first_quality])"
    using assms(1,3,4,5)
    by (simp add: search_of_def quality_search_step first_quality_def [symmetric] in_band_def)
  show ?thesis
    using assms(1,2,3) by (simp add: compressImage_events compressImage_result [OF assms(1)] s)
qed

text \<open>
  Claim C1, as amended. \<^verbatim>\<open>compressImage\<close> calls the encoder at most 7 times. On an image
  that decodes, with a canvas context, every encode is at the midpoint of the bounds, which
  start at 0.4 and 0.95 and of which the upper is lowered by an encode above the band and
  the lower raised by one below it; every encode but the last yields a blob outside the
  band; the run ends before the seventh encode only on a \<^verbatim>\<open>null\<close> or on a blob inside the
  band; and a last encode that yields a blob is the file returned. A first encode inside
  the band is the only one. The midpoints are doubles, and seven halvings narrow the
  interval from 0.4 to 0.95 to a width of about 0.0043. When the encoder answers and its
  size is monotonic from 0.4 to 0.95, and the sizes lie inside the band at every quality
  of a stretch from \<open>a\<close> to \<open>b\<close> of length at least 0.0044 between 0.4 and 0.95, the returned
  file lies inside the band.
\<close>

theorem compressImage_search_reaches_band:
  "length (filter is_ToBlob (new_events w (snd (compressImage br f maxWidth tmin tmax w)))) \<le> 7
   \<and> (image_size br f = Some (iw, ih) \<and> getContext br f \<and> canvas_size iw ih maxWidth = (nw, nh)
       \<longrightarrow> (\<exists>qs. filter is_ToBlob (new_events w (snd (compressImage br f maxWidth tmin tmax w)))
                    = map (ToBlob nw nh) qs
              \<and> qs \<noteq> []
              \<and> (\<forall>i < length qs.
                    qs ! i = midpoint (bounds_after (canvas_toBlob br f nw nh) (tmin * 1024)
                                          (tmax * 1024) (take i qs)))
              \<and> (\<forall>q \<in> set (butlast qs).
                    \<exists>bl. canvas_toBlob br f nw nh q = Some bl
                       \<and> \<not> in_band (tmin * 1024) (tmax * 1024) bl)
              \<and> (length qs < 7 \<longrightarrow>
                    canvas_toBlob br f nw nh (last qs) = None
                    \<or> (\<exists>bl. canvas_toBlob br f nw nh (last qs) = Some bl
                          \<and> in_band (tmin * 1024) (tmax * 1024) bl))
              \<and> (\<forall>bl. canvas_toBlob br f nw nh (last qs) = Some bl \<longrightarrow>
                    fst (compressImage br f maxWidth tmin tmax w)
                      = Inr (new_File bl (strip_extension (file_name f) @ ''.jpg'') ''image/jpeg''))))
   \<and> (image_size br f = Some (iw, ih) \<and> getContext br f \<and> canvas_size iw ih maxWidth = (nw, nh)
        \<and> canvas_toBlob br f nw nh first_quality = Some bm \<and> in_band (tmin * 1024) (tmax * 1024) bm
       \<longrightarrow> filter is_ToBlob (new_events w (snd (compressImage br f maxWidth tmin tmax w)))
             = [ToBlob nw nh first_quality]
           \<and> fst (compressImage br f maxWidth tmin tmax w)
             = Inr (new_File bm (strip_extension (file_name f) @ ''.jpg'') ''image/jpeg''))
   \<and> (image_size br f = Some (iw, ih) \<and> getContext br f \<and> canvas_size iw ih maxWidth = (nw, nh)
        \<and> monotonic_size (canvas_toBlob br f nw nh)
        \<and> band_between (canvas_toBlob br f nw nh) (tmin * 1024) (tmax * 1024) a b
        \<and> 2 / 5 \<le> a \<and> b \<le> 19 / 20 \<and> 11 / 2500 \<le> b - a
       \<longrightarrow> (\<exists>g. fst (compressImage br f maxWidth tmin tmax w) = Inr g
              \<and> tmin * 1024 \<le> blob_size g \<and> blob_size g \<le> tmax * 1024))"
proof -
  have run: "image_size br f = Some (iw, ih) \<and> getContext br f \<and> canvas_size iw ih maxWidth = (nw, nh)
       \<longrightarrow> (\<exists>qs. filter is_ToBlob (new_events w (snd (compressImage br f maxWidth tmin tmax w)))
                    = map (ToBlob nw nh) qs
              \<and> qs \<noteq> []
              \<and> (\<forall>i < length qs.
                    qs ! i = midpoint (bounds_after (canvas_toBlob br f nw nh) (tmin * 1024)
                                          (tmax * 1024) (take i qs)))
              \<and> (\<forall>q \<in> set (butlast qs).
                    \<exists>bl. canvas_toBlob br f nw nh q = Some bl
                       \<and> \<not> in_band (tmin * 1024) (tmax * 1024) bl)
              \<and> (length qs < 7 \<longrightarrow>
                    canvas_toBlob br f nw nh (last qs) = None
                    \<or> (\<exists>bl. canvas_toBlob br f nw nh (last qs) = Some bl
                          \<and> in_band (tmin * 1024) (tmax * 1024) bl))
              \<and> (\<forall>bl. canvas_toBlob br f nw nh (last qs) = Some bl \<longrightarrow>
                    fst (compressImage br f maxWidth tmin tmax w)
                      = Inr (new_File bl (strip_extension (file_name f) @ ''.jpg'') ''image/jpeg'')))"
    using compressImage_search_run [of br f iw ih maxWidth nw nh w tmin tmax] by blast
  show ?thesis
    using run compressImage_codec_calls [of w br f maxWidth tmin tmax]
      compressImage_stops_early [of br f iw ih maxWidth nw nh bm tmin tmax w]
      compressImage_in_band [of br f iw ih maxWidth nw nh tmin tmax a b w]
    by blast
qed

lemma example_monotonic: "monotonic_size (canvas_toBlob example_browser f nw nh)"
proof -
  have "nat \<lfloor>q1 * 400000\<rfloor> \<le> nat \<lfloor>q2 * 400000\<rfloor>" if "q1 \<le> q2" for q1 q2 :: rat
    using that by (intro nat_mono floor_mono) simp
  then show ?thesis
    by (simp add: monotonic_size_def example_browser_def)
qed

lemma example_band:
  "band_between (canvas_toBlob example_browser f nw nh) (200 * 1024) (400 * 1024) (3 / 5) (7 / 10)"
proof -
  have "204800 \<le> nat \<lfloor>q * 400000\<rfloor> \<and> nat \<lfloor>q * 400000\<rfloor> \<le> 409600"
    if "3 / 5 \<le> q" "q \<le> 7 / 10" for q :: rat
  proof -
    have "(240000::int) \<le> \<lfloor>q * 400000\<rfloor>" using that(1) by (simp add: le_floor_iff)
    moreover have "\<lfloor>q * 400000\<rfloor> \<le> (280000::int)" using that(2) by (simp add: floor_le_iff)
    ultimately show ?thesis by linarith
  qed
  then show ?thesis
    by (simp add: band_between_def example_browser_def in_band_def)
qed

text \<open>Claim C1 at the example browser: the encoder is monotonic, its sizes lie inside the
  band from the quality 0.6 to 0.7, and the file returned lies inside the band.\<close>

theorem compressImage_search_reaches_band_witness:
  "image_size example_browser example_file = Some (2560, 1920)
   \<and> getContext example_browser example_file
   \<and> canvas_size 2560 1920 1280 = (1280, 960)
   \<and> monotonic_size (canvas_toBlob example_browser example_file 1280 960)
   \<and> band_between (canvas_toBlob example_browser example_file 1280 960) (200 * 1024) (400 * 1024)
        (3 / 5) (7 / 10)
   \<and> (2 / 5 :: rat) \<le> 3 / 5 \<and> (7 / 10 :: rat) \<le> 19 / 20 \<and> (11 / 2500 :: rat) \<le> 7 / 10 - 3 / 5
   \<and> canvas_toBlob example_browser example_file 1280 960 first_quality
        = Some \<lparr>blob_size = 270000, blob_type = ''image/jpeg''\<rparr>
   \<and> in_band (200 * 1024) (400 * 1024) \<lparr>blob_size = 270000, blob_type = ''image/jpeg''\<rparr>
   \<and> length (filter is_ToBlob (new_events empty_world
         (snd (compressImage example_browser example_file 1280 200 400 empty_world)))) \<le> 7
   \<and> fst (compressImage example_browser example_file 1280 200 400 empty_world)
        = Inr (new_File \<lparr>blob_size = 270000, blob_type = ''image/jpeg''\<rparr>
                 (strip_extension (file_name example_file) @ ''.jpg'') ''image/jpeg'')
   \<and> (\<exists>g. fst (compressImage example_browser example_file 1280 200 400 empty_world) = Inr g
          \<and> 200 * 1024 \<le> blob_size g \<and> blob_size g \<le> 400 * 1024)"
proof -
  have a: "image_size example_browser example_file = Some (2560, 1920)"
    and b: "getContext example_browser example_file"
    by (simp_all add: example_browser_def)
  have d: "in_band (200 * 1024) (400 * 1024) \<lparr>blob_size = 270000, blob_type = ''image/jpeg''\<rparr>"
    by (simp add: in_band_def)
  have e: "(2 / 5 :: rat) \<le> 3 / 5" "(7 / 10 :: rat) \<le> 19 / 20" "(11 / 2500 :: rat) \<le> 7 / 10 - 3 / 5"
    by simp_all
  show ?thesis
    using a b d e example_canvas example_monotonic [of example_file 1280 960]
      example_band [of example_file 1280 960] example_first_encode [of example_file 1280 960]
      compressImage_search_reaches_band [where w = empty_world and br = example_browser
        and f = example_file and maxWidth = 1280 and tmin = 200 and tmax = 400 and iw = 2560
        and ih = 1920 and nw = 1280 and nh = 960 and a = "3 / 5" and b = "7 / 10"
        and bm = "\<lparr>blob_size = 270000, blob_type = ''image/jpeg''\<rparr>"]
    by blast
qed

lemma step_monotonic: "monotonic_size step_encoder"
  by (simp add: monotonic_size_def step_encoder_def)

lemma step_search:
  "quality_search step_encoder 204800 409600 7 (double (2 / 5)) (double (19 / 20)) None [] =
    (Some \<lparr>blob_size = 102400, blob_type = ''image/jpeg''\<rparr>,
     [3039929748475085 / 4503599627370496, 1210342399855821 / 2251799813685248,
      8444249301319681 / 18014398509481984, 2265873562520781 / 4503599627370496,
      4376935887850701 / 9007199254740992, 8908683012892263 / 18014398509481984,
      4493044315743847 / 9007199254740992])"
  by (simp add: quality_search_step quality_search_step1 step_encoder_def double_eval)

text \<open>
  Claim C1 as stated fails: the size of \<open>step_encoder\<close> is monotonic and lies inside the
  band at the quality 1/2, which is between 0.4 and 0.95, yet after seven encodes the file
  returned has 100 KB, below the band.
\<close>

theorem compressImage_misses_band_counterexample:
  "monotonic_size (canvas_toBlob step_browser example_file 1280 960)
   \<and> (2 / 5 :: rat) \<le> 1 / 2 \<and> (1 / 2 :: rat) \<le> 19 / 20
   \<and> canvas_toBlob step_browser example_file 1280 960 (1 / 2)
       = Some \<lparr>blob_size = 307200, blob_type = ''image/jpeg''\<rparr>
   \<and> in_band (200 * 1024) (400 * 1024) \<lparr>blob_size = 307200, blob_type = ''image/jpeg''\<rparr>
   \<and> fst (compressImage step_browser example_file 1280 200 400 empty_world)
       = Inr \<lparr>blob_size = 102400, blob_type = ''image/jpeg'', file_name = ''a.jpg''\<rparr>
   \<and> \<not> in_band (200 * 1024) (400 * 1024)
         \<lparr>blob_size = 102400, blob_type = ''image/jpeg'', file_name = ''a.jpg''\<rparr>"
proof -
  have i: "image_size step_browser example_file = Some (2560, 1920)"
    and t: "canvas_toBlob step_browser example_file 1280 960 = step_encoder"
    by (simp_all add: step_browser_def)
  have s: "fst (search_of step_browser example_file 1280 200 400) =
     Some \<lparr>blob_size = 102400, blob_type = ''image/jpeg''\<rparr>"
    by (simp add: search_of_def i example_canvas t step_search)
  have r: "fst (compressImage step_browser example_file 1280 200 400 empty_world)
       = Inr \<lparr>blob_size = 102400, blob_type = ''image/jpeg'', file_name = ''a.jpg''\<rparr>"
  proof -
    have g: "getContext step_browser example_file"
      by (simp add: step_browser_def)
    have n: "strip_extension (file_name example_file) = ''a''"
      by (simp add: example_file_def photo_def strip_extension_def)
    show ?thesis
      by (simp add: compressImage_result [OF i] s g n new_File_def)
  qed
  show ?thesis
    using r step_monotonic by (simp add: t in_band_def step_encoder_def)
qed

section \<open>An encoder that yields no blob\<close>

lemma search_of_None_iff:
  assumes "image_size br f = Some (iw, ih)" and "canvas_size iw ih maxWidth = (nw, nh)"
  shows "(fst (search_of br f maxWidth a b) = None) = (canvas_toBlob br f nw nh first_quality = None)"
proof -
  define qs where "qs = snd (search_of br f maxWidth a b)"
  note s = search_of_shape [OF assms, of a b, folded qs_def]
  show ?thesis
  proof (cases "butlast qs = []")
    case True
    then have "qs = [first_quality]"
      using s(1,2) by (cases qs) (auto split: if_splits)
    then show ?thesis using s(4) by (simp split: option.splits)
  next
    case False
    then have "last (butlast qs) \<in> set (butlast qs)" "hd qs \<in> set (butlast qs)"
      using s(1) by (cases qs; auto)+
    then have "canvas_toBlob br f nw nh (last (butlast qs)) \<noteq> None"
      "canvas_toBlob br f nw nh first_quality \<noteq> None"
      using s(2,3) by auto
    then show ?thesis using s(4) False by (auto split: option.splits)
  qed
qed

lemma search_of_origin:
  assumes "image_size br f = Some (iw, ih)" and "canvas_size iw ih maxWidth = (nw, nh)"
    and "fst (search_of br f maxWidth a b) = Some bl"
  shows "\<exists>q. canvas_toBlob br f nw nh q = Some bl"
  using search_of_shape(4) [OF assms(1,2), of a b] assms(3)
  by (auto split: option.splits if_splits)

text \<open>
  Claim C4, as amended. On an image that loads, \<^verbatim>\<open>compressImage\<close> never rejects; without
  a canvas context it returns the original file. With one, it encodes first at the
  midpoint of 0.4 and 0.95, and every encode before the last yields a blob: a \<^verbatim>\<open>null\<close>
  from \<^verbatim>\<open>toBlob\<close> ends the search. When that \<^verbatim>\<open>null\<close> comes at the first iteration the
  original file is returned unchanged. When it comes at a later iteration the file
  returned is built from the blob of the iteration before it, whether that blob was above
  or below the band.
\<close>

theorem compressImage_null_blob_keeps_last:
  assumes "image_size br f = Some (iw, ih)" and "canvas_size iw ih maxWidth = (nw, nh)"
  shows "\<exists>g. fst (compressImage br f maxWidth tmin tmax w) = Inr g
      \<and> (\<not> getContext br f \<longrightarrow> g = f)
      \<and> (getContext br f \<longrightarrow>
           (\<exists>qs. filter is_ToBlob (new_events w (snd (compressImage br f maxWidth tmin tmax w)))
                    = map (ToBlob nw nh) qs
                \<and> qs \<noteq> [] \<and> hd qs = first_quality
                \<and> (\<forall>q \<in> set (butlast qs). canvas_toBlob br f nw nh q \<noteq> None)
                \<and> (canvas_toBlob br f nw nh (last qs) = None \<and> butlast qs = [] \<longrightarrow> g = f)
                \<and> (canvas_toBlob br f nw nh (last qs) = None \<and> butlast qs \<noteq> [] \<longrightarrow>
                     (\<exists>bl. canvas_toBlob br f nw nh (last (butlast qs)) = Some bl
                        \<and> g = new_File bl (strip_extension (file_name f) @ ''.jpg'') ''image/jpeg''))))"
proof (cases "getContext br f")
  case False
  then show ?thesis by (simp add: compressImage_result [OF assms(1)])
next
  case True
  define qs where "qs = snd (search_of br f maxWidth tmin tmax)"
  note s = search_of_shape [OF assms, of tmin tmax, folded qs_def]
  have nn: "\<forall>q \<in> set (butlast qs). canvas_toBlob br f nw nh q \<noteq> None"
    using s(3) by auto
  have ev: "filter is_ToBlob (new_events w (snd (compressImage br f maxWidth tmin tmax w)))
              = map (ToBlob nw nh) qs"
    using compressImage_ToBlob_events [OF assms(1) True assms(2)] by (simp add: qs_def)
  have r: "fst (compressImage br f maxWidth tmin tmax w) =
     (case fst (search_of br f maxWidth tmin tmax) of
        None \<Rightarrow> Inr f
      | Some bl \<Rightarrow> Inr (new_File bl (strip_extension (file_name f) @ ''.jpg'') ''image/jpeg''))"
    using True by (simp add: compressImage_result [OF assms(1)])
  show ?thesis
  proof (cases "canvas_toBlob br f nw nh (last qs)")
    case (Some bl)
    then have "fst (compressImage br f maxWidth tmin tmax w) =
        Inr (new_File bl (strip_extension (file_name f) @ ''.jpg'') ''image/jpeg'')"
      using s(4) by (simp add: r)
    then show ?thesis using True ev s(1,2) nn Some by auto
  next
    case None
    show ?thesis
    proof (cases "butlast qs = []")
      case e: True
      then have "fst (compressImage br f maxWidth tmin tmax w) = Inr f"
        using s(4) None by (simp add: r)
      then show ?thesis using True ev s(1,2) nn None e by auto
    next
      case ne: False
      then have "last (butlast qs) \<in> set (butlast qs)" by simp
      then obtain bl where bl: "canvas_toBlob br f nw nh (last (butlast qs)) = Some bl"
        using nn by auto
      then have "fst (compressImage br f maxWidth tmin tmax w) =
        Inr (new_File bl (strip_extension (file_name f) @ ''.jpg'') ''image/jpeg'')"
        using s(4) None ne by (simp add: r)
      then show ?thesis using True ev s(1,2) nn None ne bl by auto
    qed
  qed
qed

text \<open>Claim C4 at an encoder that never yields a blob: the original file comes back.\<close>

theorem compressImage_null_blob_keeps_last_witness:
  "image_size null_browser example_file = Some (2560, 1920)
   \<and> canvas_size 2560 1920 1280 = (1280, 960)
   \<and> getContext null_browser example_file
   \<and> canvas_toBlob null_browser example_file 1280 960 first_quality = None
   \<and> fst (compressImage null_browser example_file 1280 200 400 empty_world) = Inr example_file"
proof -
  have a: "image_size null_browser example_file = Some (2560, 1920)"
    and g: "getContext null_browser example_file"
    and c: "canvas_toBlob null_browser example_file 1280 960 q = None" for q
    by (simp_all add: null_browser_def)
  obtain r qs where r: "fst (compressImage null_browser example_file 1280 200 400 empty_world) = Inr r"
    and n: "\<forall>q \<in> set (butlast qs). canvas_toBlob null_browser example_file 1280 960 q \<noteq> None"
    and o: "canvas_toBlob null_browser example_file 1280 960 (last qs) = None \<and> butlast qs = []
              \<longrightarrow> r = example_file"
    using g compressImage_null_blob_keeps_last [OF a example_canvas, of 200 400 empty_world]
    by blast
  have "butlast qs = []"
  proof (cases "butlast qs")
    case Nil then show ?thesis .
  next
    case (Cons q qs') then show ?thesis using n c by auto
  qed
  then have "r = example_file" using o c by simp
  then show ?thesis using a g c r example_canvas by simp
qed

lemma late_null_search:
  "fst (search_of late_null_browser example_file 1280 200 400)
     = Some \<lparr>blob_size = 512000, blob_type = ''image/jpeg''\<rparr>"
  "fst (search_of late_null_small_browser example_file 1280 200 400)
     = Some \<lparr>blob_size = 100000, blob_type = ''image/jpeg''\<rparr>"
proof -
  have q: "js_div (js_add (double (2 / 5)) (double (19 / 20))) 2 = first_quality"
    "js_div (js_add (double (2 / 5)) first_quality) 2 \<noteq> first_quality"
    "js_div (js_add first_quality (double (19 / 20))) 2 \<noteq> first_quality"
    by (simp_all add: first_quality_eval double_eval)
  show "fst (search_of late_null_browser example_file 1280 200 400)
     = Some \<lparr>blob_size = 512000, blob_type = ''image/jpeg''\<rparr>"
    by (simp add: search_of_def late_null_browser_def example_canvas quality_search_step q)
  show "fst (search_of late_null_small_browser example_file 1280 200 400)
     = Some \<lparr>blob_size = 100000, blob_type = ''image/jpeg''\<rparr>"
    by (simp add: search_of_def late_null_small_browser_def example_canvas quality_search_step q)
qed

text \<open>
  Claim C4 as stated fails: the encoders of \<open>late_null_browser\<close> and
  \<open>late_null_small_browser\<close> yield \<^verbatim>\<open>null\<close> at the second iteration, and \<^verbatim>\<open>compressImage\<close>
  returns the JPEG of the first iteration, of 500 KB in the one case and of 100000 bytes
  in the other, not the original file.
\<close>

theorem compressImage_null_not_original_counterexample:
  "image_size late_null_browser example_file = Some (2560, 1920)
   \<and> canvas_toBlob late_null_browser example_file 1280 960
        (js_div (js_add (double (2 / 5)) first_quality) 2) = None
   \<and> fst (compressImage late_null_browser example_file 1280 200 400 empty_world)
       = Inr \<lparr>blob_size = 512000, blob_type = ''image/jpeg'', file_name = ''a.jpg''\<rparr>
   \<and> canvas_toBlob late_null_small_browser example_file 1280 960
        (js_div (js_add first_quality (double (19 / 20))) 2) = None
   \<and> fst (compressImage late_null_small_browser example_file 1280 200 400 empty_world)
       = Inr \<lparr>blob_size = 100000, blob_type = ''image/jpeg'', file_name = ''a.jpg''\<rparr>
   \<and> example_file = \<lparr>blob_size = 3000000, blob_type = ''image/png'', file_name = ''a.png''\<rparr>"
proof -
  have i: "image_size late_null_browser example_file = Some (2560, 1920)"
    "image_size late_null_small_browser example_file = Some (2560, 1920)"
    and g: "getContext late_null_browser example_file"
      "getContext late_null_small_browser example_file"
    by (simp_all add: late_null_browser_def late_null_small_browser_def)
  have q: "js_div (js_add (double (2 / 5)) first_quality) 2 \<noteq> first_quality"
    "js_div (js_add first_quality (double (19 / 20))) 2 \<noteq> first_quality"
    by (simp_all add: first_quality_eval double_eval)
  have t: "canvas_toBlob late_null_browser example_file 1280 960
        (js_div (js_add (double (2 / 5)) first_quality) 2) = None"
    "canvas_toBlob late_null_small_browser example_file 1280 960
        (js_div (js_add first_quality (double (19 / 20))) 2) = None"
    using q by (simp_all add: late_null_browser_def late_null_small_browser_def)
  have n: "strip_extension (file_name example_file) = ''a''"
    by (simp add: example_file_def photo_def strip_extension_def)
  have "fst (compressImage late_null_browser example_file 1280 200 400 empty_world)
       = Inr \<lparr>blob_size = 512000, blob_type = ''image/jpeg'', file_name = ''a.jpg''\<rparr>"
    "fst (compressImage late_null_small_browser example_file 1280 200 400 empty_world)
       = Inr \<lparr>blob_size = 100000, blob_type = ''image/jpeg'', file_name = ''a.jpg''\<rparr>"
    by (simp_all add: compressImage_result [OF i(1)] compressImage_result [OF i(2)]
          late_null_search g n new_File_def)
  then show ?thesis
    using i t by (simp add: example_file_def photo_def)
qed

section \<open>The size of the returned image\<close>

text \<open>
  Claim C7, as amended. Take an image that decodes to a positive width, with both sides
  below \<open>2 ^ 24\<close> pixels, and a positive maximal width. When a canvas context exists and the
  first encode yields a blob, \<^verbatim>\<open>compressImage\<close> returns a JPEG the encoder made of the
  canvas, and the canvas is never wider than \<open>maxWidth\<close>; its height is the proportional
  height rounded, off the input ratio by at most half a pixel (twice the cross difference
  is at most the input width); and an image no wider than \<open>maxWidth\<close> keeps its size, the
  scale being 1. When there is no canvas context or the first encode yields \<^verbatim>\<open>null\<close>, the
  original file is returned with the size it has, whatever the maximal width. In either
  case an image no wider than \<open>maxWidth\<close> comes back with its own size.
\<close>

theorem compressImage_output_within_maxWidth:
  assumes "image_size br f = Some (iw, ih)" and "0 < iw" and "iw < 2 ^ 24"
    and "0 \<le> ih" and "ih < 2 ^ 24" and "0 < maxWidth"
  shows "(getContext br f
          \<and> canvas_toBlob br f (fst (canvas_size iw ih maxWidth)) (snd (canvas_size iw ih maxWidth))
               first_quality \<noteq> None
          \<longrightarrow> (\<exists>ow oh q bl.
                 output_size br f maxWidth tmin tmax = Some (ow, oh)
               \<and> canvas_toBlob br f ow oh q = Some bl
               \<and> fst (compressImage br f maxWidth tmin tmax w)
                   = Inr (new_File bl (strip_extension (file_name f) @ ''.jpg'') ''image/jpeg'')
               \<and> ow \<le> maxWidth
               \<and> 2 * \<bar>oh * iw - ih * ow\<bar> \<le> iw
               \<and> (iw \<le> maxWidth \<longrightarrow> scale_of iw maxWidth = 1 \<and> ow = iw \<and> oh = ih)))
       \<and> (\<not> getContext br f
          \<or> canvas_toBlob br f (fst (canvas_size iw ih maxWidth)) (snd (canvas_size iw ih maxWidth))
               first_quality = None
          \<longrightarrow> output_size br f maxWidth tmin tmax = Some (iw, ih)
              \<and> fst (compressImage br f maxWidth tmin tmax w) = Inr f)
       \<and> (iw \<le> maxWidth \<longrightarrow> output_size br f maxWidth tmin tmax = Some (iw, ih))"
proof -
  obtain cw ch where c: "canvas_size iw ih maxWidth = (cw, ch)"
    by (cases "canvas_size iw ih maxWidth")
  have n: "(fst (search_of br f maxWidth tmin tmax) = None)
             = (canvas_toBlob br f cw ch first_quality = None)"
    using search_of_None_iff [OF assms(1) c] .
  have size: "cw \<le> maxWidth" "2 * \<bar>ch * iw - ih * cw\<bar> \<le> iw"
    "iw \<le> maxWidth \<longrightarrow> scale_of iw maxWidth = 1 \<and> cw = iw \<and> ch = ih"
    using canvas_size_width [OF assms(2,3,6), of ih] canvas_size_ratio [OF assms(2,3,4,5,6)]
      canvas_size_height_same [OF _ assms(4,5), of iw maxWidth]
    by (simp_all add: c scale_of_def)
  have open_path: "output_size br f maxWidth tmin tmax = Some (iw, ih)
      \<and> fst (compressImage br f maxWidth tmin tmax w) = Inr f"
    if "\<not> getContext br f \<or> canvas_toBlob br f cw ch first_quality = None"
    using that n by (auto simp: output_size_def assms(1) compressImage_result [OF assms(1)])
  have encoded: "\<exists>q bl. output_size br f maxWidth tmin tmax = Some (cw, ch)
       \<and> canvas_toBlob br f cw ch q = Some bl
       \<and> fst (compressImage br f maxWidth tmin tmax w)
           = Inr (new_File bl (strip_extension (file_name f) @ ''.jpg'') ''image/jpeg'')"
    if g: "getContext br f" and t: "canvas_toBlob br f cw ch first_quality \<noteq> None"
  proof -
    obtain bl where bl: "fst (search_of br f maxWidth tmin tmax) = Some bl"
      using n t by auto
    obtain q where q: "canvas_toBlob br f cw ch q = Some bl"
      using search_of_origin [OF assms(1) c bl] by blast
    show ?thesis
      using g bl q by (auto simp: output_size_def assms(1) c compressImage_result [OF assms(1)])
  qed
  have same: "output_size br f maxWidth tmin tmax = Some (iw, ih)" if "iw \<le> maxWidth"
    using that size(3) by (simp add: output_size_def assms(1) c)
  show ?thesis
    using open_path encoded size same unfolding c by (simp only: fst_conv snd_conv) blast
qed

text \<open>Claim C7 at an image of 2560 by 1920 pixels: the JPEG returned is the encode of a
  canvas of 1280 by 960 pixels.\<close>

theorem compressImage_output_within_maxWidth_witness:
  "image_size example_browser example_file = Some (2560, 1920)
   \<and> (0::int) < 2560 \<and> (2560::int) < 2 ^ 24 \<and> (0::int) \<le> 1920 \<and> (1920::int) < 2 ^ 24
   \<and> (0::int) < 1280
   \<and> getContext example_browser example_file
   \<and> canvas_toBlob example_browser example_file (fst (canvas_size 2560 1920 1280))
        (snd (canvas_size 2560 1920 1280)) first_quality \<noteq> None
   \<and> output_size example_browser example_file 1280 200 400 = Some (1280, 960)
   \<and> (\<exists>ow oh q bl. output_size example_browser example_file 1280 200 400 = Some (ow, oh)
        \<and> canvas_toBlob example_browser example_file ow oh q = Some bl
        \<and> fst (compressImage example_browser example_file 1280 200 400 empty_world)
            = Inr (new_File bl (strip_extension (file_name example_file) @ ''.jpg'') ''image/jpeg'')
        \<and> ow \<le> 1280 \<and> 2 * \<bar>oh * 2560 - 1920 * ow\<bar> \<le> 2560)"
proof -
  have a: "image_size example_browser example_file = Some (2560, 1920)"
    and g: "getContext example_browser example_file"
    by (simp_all add: example_browser_def)
  have b: "(0::int) < 2560" "(2560::int) < 2 ^ 24" "(0::int) \<le> 1920" "(1920::int) < 2 ^ 24"
    "(0::int) < 1280"
    by simp_all
  have t: "canvas_toBlob example_browser example_file (fst (canvas_size 2560 1920 1280))
        (snd (canvas_size 2560 1920 1280)) first_quality \<noteq> None"
    by (simp add: example_first_encode)
  have s: "fst (search_of example_browser example_file 1280 200 400) \<noteq> None"
    by (simp add: search_of_def a example_canvas example_search)
  have o: "output_size example_browser example_file 1280 200 400 = Some (1280, 960)"
    by (simp add: output_size_def a g s example_canvas)
  show ?thesis
    using a g b t o
      compressImage_output_within_maxWidth [OF a b, of 200 400 empty_world]
    by blast
qed

text \<open>
  Claim C7 as stated fails: the image decodes to 2560 by 1920 pixels and the maximal width
  is 1280, yet with an encoder that yields \<^verbatim>\<open>null\<close>, and likewise without a canvas context,
  \<^verbatim>\<open>compressImage\<close> returns the original file, 2560 pixels wide.
\<close>

theorem compressImage_returns_wide_original_counterexample:
  "image_size null_browser example_file = Some (2560, 1920)
   \<and> fst (compressImage null_browser example_file 1280 200 400 empty_world) = Inr example_file
   \<and> output_size null_browser example_file 1280 200 400 = Some (2560, 1920)
   \<and> image_size no_context_browser example_file = Some (2560, 1920)
   \<and> fst (compressImage no_context_browser example_file 1280 200 400 empty_world) = Inr example_file
   \<and> output_size no_context_browser example_file 1280 200 400 = Some (2560, 1920)
   \<and> \<not> (2560::int) \<le> 1280"
proof -
  have a: "image_size null_browser example_file = Some (2560, 1920)"
    "image_size no_context_browser example_file = Some (2560, 1920)"
    and g: "getContext null_browser example_file" "\<not> getContext no_context_browser example_file"
    and c: "canvas_toBlob null_browser example_file 1280 960 first_quality = None"
    by (simp_all add: null_browser_def no_context_browser_def)
  have s: "fst (search_of null_browser example_file 1280 200 400) = None"
    using search_of_None_iff [OF a(1) example_canvas, of 200 400] c by simp
  show ?thesis
    using a g s
    by (simp add: output_size_def compressImage_result [OF a(1)] compressImage_result [OF a(2)])
qed

section \<open>Validation\<close>

text \<open>
  Claim C8. When the pollution type or the description is empty, a coordinate is missing
  or no image is attached, \<^verbatim>\<open>submit\<close> returns the component as it was and the world with
  one warning added to the log: nothing is compressed, uploaded or stored, and no upload
  state is set up.
\<close>

theorem submit_rejects_incomplete_form:
  assumes "\<not> valid_form c"
  shows "\<exists>msg title. submit br be c w = (c, emit (Notify Warning msg title) w)"
  using assms by (auto simp: submit_def valid_form_def)

text \<open>Claim C8 at the example form without its description.\<close>

theorem submit_rejects_incomplete_form_witness:
  "\<not> valid_form (example_component\<lparr>report := (example_form three_photos)\<lparr>form_description := []\<rparr>\<rparr>)
   \<and> (\<exists>msg title.
         submit example_browser (example_backend second_fails)
           (example_component\<lparr>report := (example_form three_photos)\<lparr>form_description := []\<rparr>\<rparr>)
           example_world
         = (example_component\<lparr>report := (example_form three_photos)\<lparr>form_description := []\<rparr>\<rparr>,
            emit (Notify Warning msg title) example_world))"
proof -
  have h: "\<not> valid_form (example_component\<lparr>report := (example_form three_photos)\<lparr>form_description := []\<rparr>\<rparr>)"
    by (simp add: valid_form_def)
  show ?thesis
    using h submit_rejects_incomplete_form [OF h] by blast
qed


lemma submit_valid:
  assumes "valid_form c" and "current_user be = Some user"
  shows "submit br be c w =
     (case compress_loop br (form_images (report c)) [] w of
        (Inl e, w1) \<Rightarrow> submit_failed (prepared c) w1
      | (Inr compressedFiles, w1) \<Rightarrow>
          (case upload_loop be user (length compressedFiles) compressedFiles 0 [] (prepared c) w1 of
             (Inl e, c3, w2) \<Rightarrow> submit_failed c3 w2
           | (Inr uploadedUrls, c3, w2) \<Rightarrow>
               (case saveReportWithUrls be user
                       \<lparr>p_type = form_type (report c3),
                        p_location = or_else (locationText be c3) ''Unknown Location'',
                        p_description = form_description (report c3),
                        p_imageUrls = uploadedUrls,
                        p_dateTaken = form_dateTaken (report c3),
                        p_timeTaken = form_timeTaken (report c3),
                        p_barangayId = barangay user\<rparr> w2 of
                  (Inl e, w3) \<Rightarrow> submit_failed c3 w3
                | (Inr u, w3) \<Rightarrow>
                    (if navigate_ok be
                     then (c3\<lparr>report := reset_form, previews := [], progressPerImage := [],
                              uploading := False\<rparr>,
                           emit (Navigate ''/'') (emit (Notify Success
                             ''Report submitted successfully! Your report will be reviewed and approved by an admin before it is published.''
                             ''Report Submitted'') (revoke_all (previews c3) w3)))
                     else submit_failed
                            (c3\<lparr>report := reset_form, previews := [], progressPerImage := [],
                               uploading := False\<rparr>)
                            (emit (Navigate ''/'') (emit (Notify Success
                             ''Report submitted successfully! Your report will be reviewed and approved by an admin before it is published.''
                             ''Report Submitted'') (revoke_all (previews c3) w3)))))))"
  using assms
  by (auto simp: submit_def valid_form_def prepared_def Let_def split: prod.splits sum.splits)

section \<open>What the loops append to the log\<close>

lemma appends_refl: "appends P w w"
  by (simp add: appends_def)

lemma appends_trans: "appends P w w1 \<Longrightarrow> appends P w1 w2 \<Longrightarrow> appends P w w2"
  by (auto simp: appends_def)

lemma appends_emit: "P e \<Longrightarrow> appends P w (emit e w)"
  by (simp add: appends_def emit_simps)

lemma appends_new_events: "appends P w w' \<Longrightarrow> e \<in> set (new_events w w') \<Longrightarrow> P e"
  by (auto simp: appends_def new_events_def list_all_iff)

lemma appends_new_events_mono:
  "appends P w w1 \<Longrightarrow> appends Q w1 w2 \<Longrightarrow> set (new_events w1 w2) \<subseteq> set (new_events w w2)"
  by (auto simp: appends_def new_events_def)

lemma list_all_map_ToBlob: "list_all no_store_write (map (ToBlob nw nh) qs)"
  by (induction qs) simp_all

lemma compressImage_appends:
  "appends no_store_write w (snd (compressImage br f maxWidth a b w))"
proof -
  have "io_log (snd (compressImage br f maxWidth a b w)) =
          io_log w @ new_events w (snd (compressImage br f maxWidth a b w))"
    by (simp add: compressImage_def createObjectURL_def revokeObjectURL_def emit_simps
        new_events_def Let_def split_def split: option.splits)
  moreover have "list_all no_store_write (new_events w (snd (compressImage br f maxWidth a b w)))"
    by (simp add: compressImage_events list_all_map_ToBlob split: option.splits)
  ultimately show ?thesis
    unfolding appends_def by blast
qed

lemma compressImage_stores:
  "reports_col (snd (compressImage br f maxWidth a b w)) = reports_col w"
  "storage (snd (compressImage br f maxWidth a b w)) = storage w"
  by (simp_all add: compressImage_def createObjectURL_def revokeObjectURL_def emit_simps
        Let_def split_def split: option.splits)

lemma compressImage_fst_world:
  "fst (compressImage br f maxWidth a b w) = fst (compressImage br f maxWidth a b w')"
  by (simp add: compressImage_def createObjectURL_def Let_def split_def split: option.splits)

lemma compress_loop_world:
  "appends no_store_write w (snd (compress_loop br fs acc w))
   \<and> reports_col (snd (compress_loop br fs acc w)) = reports_col w
   \<and> storage (snd (compress_loop br fs acc w)) = storage w"
proof (induction fs arbitrary: acc w)
  case Nil
  show ?case by (simp add: appends_refl)
next
  case (Cons f fs)
  obtain r w1 where c: "compressImage br f 1280 200 400 w = (r, w1)"
    by (cases "compressImage br f 1280 200 400 w")
  have a: "appends no_store_write w w1" "reports_col w1 = reports_col w" "storage w1 = storage w"
    using compressImage_appends [of w br f 1280 200 400] compressImage_stores [of br f 1280 200 400 w] c
    by simp_all
  show ?case
  proof (cases r)
    case (Inl e)
    then show ?thesis using c a by simp
  next
    case (Inr g)
    then show ?thesis
      using c a Cons.IH [where acc = "acc @ [g]" and w = w1] by (auto intro: appends_trans)
  qed
qed

lemma compress_loop_files:
  "compress_loop br fs acc w = (Inr cf, w') \<Longrightarrow>
     length cf = length acc + length fs \<and> take (length acc) cf = acc
     \<and> (\<forall>i<length fs. fst (compressImage br (fs ! i) 1280 200 400 w0) = Inr (cf ! (length acc + i)))"
proof (induction fs arbitrary: acc w)
  case Nil
  then show ?case by simp
next
  case (Cons f fs)
  obtain r w1 where c: "compressImage br f 1280 200 400 w = (r, w1)"
    by (cases "compressImage br f 1280 200 400 w")
  show ?case
  proof (cases r)
    case (Inl e)
    then show ?thesis using c Cons.prems by simp
  next
    case (Inr g)
    have g: "fst (compressImage br f 1280 200 400 w0) = Inr g"
      using c Inr compressImage_fst_world [of br f 1280 200 400 w0 w] by simp
    have "compress_loop br fs (acc @ [g]) w1 = (Inr cf, w')"
      using c Inr Cons.prems by simp
    then have ih: "length cf = length (acc @ [g]) + length fs"
        "take (length (acc @ [g])) cf = acc @ [g]"
        "\<forall>i<length fs. fst (compressImage br (fs ! i) 1280 200 400 w0) = Inr (cf ! (length (acc @ [g]) + i))"
      using Cons.IH [where acc = "acc @ [g]" and w = w1] by simp_all
    have t: "take (length acc) cf = acc"
      using ih(2) by (metis append_eq_conv_conj take_take min.idem length_append
          le_add1 min.absorb1 take_all_iff append_take_drop_id)
    have n: "cf ! length acc = g"
      using ih(2) by (metis nth_append_length nth_take length_append_singleton lessI)
    show ?thesis
    proof (intro conjI allI impI)
      show "length cf = length acc + length (f # fs)" using ih(1) by simp
      show "take (length acc) cf = acc" by (rule t)
      fix i assume "i < length (f # fs)"
      then show "fst (compressImage br ((f # fs) ! i) 1280 200 400 w0) = Inr (cf ! (length acc + i))"
        using g n ih(3) by (cases i) simp_all
    qed
  qed
qed

section \<open>The upload loop\<close>

lemma on_state_changed_form:
  "report (on_state_changed n idx c sn) = report c"
  "previews (on_state_changed n idx c sn) = previews c"
  "uploading (on_state_changed n idx c sn) = uploading c"
  by (simp_all add: on_state_changed_def Let_def)

lemma foldl_on_state_changed_form:
  "report (foldl (on_state_changed n idx) c sns) = report c
   \<and> previews (foldl (on_state_changed n idx) c sns) = previews c
   \<and> uploading (foldl (on_state_changed n idx) c sns) = uploading c"
  by (induction sns arbitrary: c) (simp_all add: on_state_changed_form)

lemma on_complete_form:
  "report (on_complete n idx c) = report c"
  "previews (on_complete n idx c) = previews c"
  "uploading (on_complete n idx c) = uploading c"
  by (simp_all add: on_complete_def Let_def)

lemma uploadSingle_form:
  assumes "uploadSingle be user n f idx c w = (r, c', w')"
  shows "report c' = report c \<and> previews c' = previews c \<and> uploading c' = uploading c"
  using assms foldl_on_state_changed_form [of n idx c "fst (upload_run be (upload_path be user idx f) f)"]
  by (auto simp: uploadSingle_def Let_def split_def on_complete_form split: if_splits option.splits)

lemma uploadSingle_world:
  assumes "uploadSingle be user n f idx c w = (r, c', w')"
  shows "appends no_store_write w w' \<and> reports_col w' = reports_col w
       \<and> dom (storage w) \<subseteq> dom (storage w')"
  using assms
  by (auto simp: uploadSingle_def Let_def split_def appends_def emit_simps emit_def
      split: if_splits option.splits)

lemma uploadSingle_ok:
  assumes "uploadSingle be user n f idx c w = (r, c', w')"
  shows "upload_ok be user idx f \<longrightarrow>
           r = Inr (the (getDownloadURL be (upload_path be user idx f)))
           \<and> storage w' (upload_path be user idx f) = Some f"
    and "\<not> upload_ok be user idx f \<longrightarrow> (\<exists>e. r = Inl e)"
  using assms
  by (auto simp: uploadSingle_def upload_ok_def Let_def split_def emit_simps emit_def
      split: if_splits option.splits)

lemma upload_loop_form:
  "upload_loop be user n fs idx urls c w = (r, c', w') \<Longrightarrow>
     report c' = report c \<and> previews c' = previews c \<and> uploading c' = uploading c"
proof (induction fs arbitrary: idx urls c w)
  case Nil
  then show ?case by simp
next
  case (Cons f fs)
  obtain r1 c1 w1 where u: "uploadSingle be user n f idx c w = (r1, c1, w1)"
    by (cases "uploadSingle be user n f idx c w") auto
  show ?case
  proof (cases r1)
    case (Inl e)
    then show ?thesis using u Cons.prems uploadSingle_form [OF u] by simp
  next
    case (Inr url)
    then have "upload_loop be user n fs (Suc idx) (urls @ [url]) c1 w1 = (r, c', w')"
      using u Cons.prems by simp
    then show ?thesis
      using Cons.IH uploadSingle_form [OF u] by simp
  qed
qed

lemma upload_loop_world:
  "upload_loop be user n fs idx urls c w = (r, c', w') \<Longrightarrow>
     appends no_store_write w w' \<and> reports_col w' = reports_col w
     \<and> dom (storage w) \<subseteq> dom (storage w')"
proof (induction fs arbitrary: idx urls c w)
  case Nil
  then show ?case by (simp add: appends_refl)
next
  case (Cons f fs)
  obtain r1 c1 w1 where u: "uploadSingle be user n f idx c w = (r1, c1, w1)"
    by (cases "uploadSingle be user n f idx c w") auto
  show ?case
  proof (cases r1)
    case (Inl e)
    then show ?thesis using u Cons.prems uploadSingle_world [OF u] by simp
  next
    case (Inr url)
    then have "upload_loop be user n fs (Suc idx) (urls @ [url]) c1 w1 = (r, c', w')"
      using u Cons.prems by simp
    from Cons.IH [OF this] uploadSingle_world [OF u]
    have "appends no_store_write w w'" "reports_col w' = reports_col w"
        "dom (storage w) \<subseteq> dom (storage w')"
      by (blast intro: appends_trans, simp, blast)
    then show ?thesis by simp
  qed
qed

lemma upload_loop_urls:
  "upload_loop be user n fs idx urls c w = (Inr urls', c', w') \<Longrightarrow>
     length urls' = length urls + length fs \<and> take (length urls) urls' = urls
     \<and> (\<forall>i<length fs. upload_ok be user (idx + i) (fs ! i)
            \<and> getDownloadURL be (upload_path be user (idx + i) (fs ! i)) = Some (urls' ! (length urls + i)))"
proof (induction fs arbitrary: idx urls c w)
  case Nil
  then show ?case by simp
next
  case (Cons f fs)
  obtain r1 c1 w1 where u: "uploadSingle be user n f idx c w = (r1, c1, w1)"
    by (cases "uploadSingle be user n f idx c w") auto
  show ?case
  proof (cases r1)
    case (Inl e)
    then show ?thesis using u Cons.prems by simp
  next
    case (Inr url)
    have ok: "upload_ok be user idx f"
      using uploadSingle_ok(2) [OF u] Inr by auto
    then have url: "getDownloadURL be (upload_path be user idx f) = Some url"
      using uploadSingle_ok(1) [OF u] Inr by (auto simp: upload_ok_def)
    have "upload_loop be user n fs (Suc idx) (urls @ [url]) c1 w1 = (Inr urls', c', w')"
      using u Inr Cons.prems by simp
    from Cons.IH [OF this]
    have ih: "length urls' = length (urls @ [url]) + length fs"
        "take (length (urls @ [url])) urls' = urls @ [url]"
        "\<forall>i<length fs. upload_ok be user (Suc idx + i) (fs ! i)
            \<and> getDownloadURL be (upload_path be user (Suc idx + i) (fs ! i))
                = Some (urls' ! (length (urls @ [url]) + i))"
      by simp_all
    have t: "take (length urls) urls' = urls"
      using ih(2) by (metis append_eq_conv_conj take_take min.idem length_append
          le_add1 min.absorb1 take_all_iff append_take_drop_id)
    have nth: "urls' ! length urls = url"
      using ih(2) by (metis nth_append_length nth_take length_append_singleton lessI)
    show ?thesis
    proof (intro conjI allI impI)
      show "length urls' = length urls + length (f # fs)" using ih(1) by simp
      show "take (length urls) urls' = urls" by (rule t)
      fix i assume i: "i < length (f # fs)"
      show "upload_ok be user (idx + i) ((f # fs) ! i)"
        using i ok ih(3) by (cases i) simp_all
      show "getDownloadURL be (upload_path be user (idx + i) ((f # fs) ! i))
              = Some (urls' ! (length urls + i))"
        using i url nth ih(3) by (cases i) simp_all
    qed
  qed
qed

lemma upload_loop_fails:
  "i < length fs \<Longrightarrow> \<not> upload_ok be user (idx + i) (fs ! i)
     \<Longrightarrow> \<exists>e. fst (upload_loop be user n fs idx urls c w) = Inl e"
proof (induction fs arbitrary: i idx urls c w)
  case Nil
  then show ?case by simp
next
  case (Cons f fs)
  obtain r1 c1 w1 where u: "uploadSingle be user n f idx c w = (r1, c1, w1)"
    by (cases "uploadSingle be user n f idx c w") auto
  show ?case
  proof (cases r1)
    case (Inl e)
    then show ?thesis using u by simp
  next
    case (Inr url)
    then have ok: "upload_ok be user idx f"
      using uploadSingle_ok(2) [OF u] by auto
    then obtain j where j: "i = Suc j"
      using Cons.prems by (cases i) auto
    have "\<exists>e. fst (upload_loop be user n fs (Suc idx) (urls @ [url]) c1 w1) = Inl e"
      using Cons.IH [of j "Suc idx"] Cons.prems j by simp
    then show ?thesis using u Inr by simp
  qed
qed

lemma upload_loop_keeps:
  "\<forall>j<i. upload_ok be user (idx + j) (fs ! j) \<Longrightarrow> i \<le> length fs
     \<Longrightarrow> \<forall>j<i. storage (snd (snd (upload_loop be user n fs idx urls c w)))
                    (upload_path be user (idx + j) (fs ! j)) \<noteq> None"
proof (induction fs arbitrary: i idx urls c w)
  case Nil
  then show ?case by simp
next
  case (Cons f fs)
  show ?case
  proof (cases i)
    case 0
    then show ?thesis by simp
  next
    case (Suc k)
    obtain r1 c1 w1 where u: "uploadSingle be user n f idx c w = (r1, c1, w1)"
      by (cases "uploadSingle be user n f idx c w") auto
    have ok: "upload_ok be user idx f"
      using Cons.prems(1) Suc by force
    then obtain url where r1: "r1 = Inr url" and st: "storage w1 (upload_path be user idx f) = Some f"
      using uploadSingle_ok(1) [OF u] by auto
    define rest where "rest = upload_loop be user n fs (Suc idx) (urls @ [url]) c1 w1"
    have whole: "upload_loop be user n (f # fs) idx urls c w = rest"
      using u r1 by (simp add: rest_def)
    have "\<forall>j<k. upload_ok be user (Suc idx + j) (fs ! j)"
      using Cons.prems(1) Suc by force
    then have ih: "\<forall>j<k. storage (snd (snd rest)) (upload_path be user (Suc idx + j) (fs ! j)) \<noteq> None"
      unfolding rest_def using Cons.IH [of k "Suc idx"] Cons.prems(2) Suc by simp
    have "dom (storage w1) \<subseteq> dom (storage (snd (snd rest)))"
      using upload_loop_world [of be user n fs "Suc idx" "urls @ [url]" c1 w1 "fst rest" "fst (snd rest)" "snd (snd rest)"]
      by (simp add: rest_def)
    then have first: "storage (snd (snd rest)) (upload_path be user idx f) \<noteq> None"
      using st by blast
    show ?thesis
    proof (intro allI impI)
      fix j assume "j < i"
      then show "storage (snd (snd (upload_loop be user n (f # fs) idx urls c w)))
                   (upload_path be user (idx + j) ((f # fs) ! j)) \<noteq> None"
        unfolding whole using first ih Suc by (cases j) simp_all
    qed
  qed
qed

section \<open>An example submission\<close>

lemma example_selected:
  "onFileChange (Some three_photos) (initial_component\<lparr>report := example_form []\<rparr>) empty_world
     = (example_component, example_world)"
  by (simp add: onFileChange_def initial_component_def example_form_def three_photos_def
      example_component_def example_world_def empty_world_def createObjectURL_def emit_def Let_def)

lemma show_nat_1700: "show_nat 1700 = ''1700''" "show_nat 1701 = ''1701''" "show_nat 1702 = ''1702''"
  by (simp_all add: digit_def)

lemma example_compress_loop:
  "fst (compress_loop example_browser three_photos [] w) = Inr [jpeg ''a.jpg'', jpeg ''b.jpg'', jpeg ''c.jpg'']"
  by (simp add: three_photos_def example_compress jpeg_def strip_extension_def)

lemma example_paths:
  "upload_path (example_backend runs) example_user 0 (jpeg ''a.jpg'') = ''reports/u1/1700_a.jpg''"
  "upload_path (example_backend runs) example_user 1 (jpeg ''b.jpg'') = ''reports/u1/1701_b.jpg''"
  "upload_path (example_backend runs) example_user 2 (jpeg ''c.jpg'') = ''reports/u1/1702_c.jpg''"
  by (simp_all add: upload_path_def example_backend_def example_user_def jpeg_def digit_def)

lemma example_upload_ok:
  "upload_ok (example_backend second_fails) example_user 0 (jpeg ''a.jpg'')"
  "\<not> upload_ok (example_backend second_fails) example_user 1 (jpeg ''b.jpg'')"
  by (simp_all add: upload_ok_def upload_path_def example_backend_def example_user_def jpeg_def
      digit_def second_fails_def)

lemma example_valid: "valid_form example_component"
  by (simp add: valid_form_def example_component_def example_form_def three_photos_def)

lemma example_current_user: "current_user (example_backend runs) = Some example_user"
  by (simp add: example_backend_def)

section \<open>A failed upload\<close>

lemma submit_failed_simps:
  "reports_col (snd (submit_failed c w)) = reports_col w"
  "storage (snd (submit_failed c w)) = storage w"
  "io_log (snd (submit_failed c w)) =
     io_log w @ [Notify Error ''Failed to submit report. Please try again.'' ''Submission Failed'']"
  "previews (fst (submit_failed c w)) = previews c"
  "report (fst (submit_failed c w)) = report c"
  "progressPerImage (fst (submit_failed c w)) = progressPerImage c"
  "uploading (fst (submit_failed c w)) = False"
  by (simp_all add: submit_failed_def emit_simps)

lemma submit_failed_appends: "appends no_store_write w (snd (submit_failed c w))"
  by (simp add: submit_failed_def appends_emit)

lemma prepared_form:
  "report (prepared c) = report c" "previews (prepared c) = previews c"
  by (simp_all add: prepared_def)

text \<open>
  Claim C5. When the form is valid, a user is signed in and the images are compressed, and
  upload \<open>i\<close> is the first that does not resolve, the submission creates no report record
  and calls neither \<^verbatim>\<open>addDoc\<close> nor a delete on the blob store; every object stored before
  stays, and the blobs of the uploads before \<open>i\<close> are in place.
\<close>

theorem submit_upload_failure_leaves_no_record:
  assumes "valid_form c" and "current_user be = Some user"
    and "compress_loop br (form_images (report c)) [] w = (Inr compressedFiles, w1)"
    and "i < length compressedFiles"
    and "\<forall>j<i. upload_ok be user j (compressedFiles ! j)"
    and "\<not> upload_ok be user i (compressedFiles ! i)"
  shows "reports_col (snd (submit br be c w)) = reports_col w
       \<and> (\<forall>d. AddDoc d \<notin> set (new_events w (snd (submit br be c w))))
       \<and> (\<forall>p. DeleteObject p \<notin> set (new_events w (snd (submit br be c w))))
       \<and> dom (storage w) \<subseteq> dom (storage (snd (submit br be c w)))
       \<and> (\<forall>j<i. storage (snd (submit br be c w)) (upload_path be user j (compressedFiles ! j)) \<noteq> None)"
proof -
  define n where "n = length compressedFiles"
  obtain r c3 w2 where ul: "upload_loop be user n compressedFiles 0 [] (prepared c) w1 = (r, c3, w2)"
    by (cases "upload_loop be user n compressedFiles 0 [] (prepared c) w1") auto
  obtain e where r: "r = Inl e"
    using upload_loop_fails [of i compressedFiles be user 0 n "[]" "prepared c" w1] assms(4,6) ul
    by auto
  have s: "submit br be c w = submit_failed c3 w2"
    using ul r assms(3) by (simp add: submit_valid [OF assms(1,2)] n_def)
  have w1: "appends no_store_write w w1" "reports_col w1 = reports_col w" "storage w1 = storage w"
    using compress_loop_world [of w br "form_images (report c)" "[]"] assms(3) by simp_all
  have w2: "appends no_store_write w1 w2" "reports_col w2 = reports_col w1"
      "dom (storage w1) \<subseteq> dom (storage w2)"
    using upload_loop_world [OF ul] by simp_all
  have ap: "appends no_store_write w (snd (submit br be c w))"
    unfolding s using w1(1) w2(1) submit_failed_appends [of w2 c3] by (blast intro: appends_trans)
  have keep: "\<forall>j<i. storage w2 (upload_path be user j (compressedFiles ! j)) \<noteq> None"
    using upload_loop_keeps [of i be user 0 compressedFiles n "[]" "prepared c" w1] assms(4,5) ul
    by simp
  have a: "reports_col (snd (submit br be c w)) = reports_col w"
    by (simp add: s submit_failed_simps w1 w2)
  have b: "\<forall>d. AddDoc d \<notin> set (new_events w (snd (submit br be c w)))"
    using appends_new_events [OF ap] by fastforce
  have d: "\<forall>p. DeleteObject p \<notin> set (new_events w (snd (submit br be c w)))"
    using appends_new_events [OF ap] by fastforce
  have f: "dom (storage w) \<subseteq> dom (storage (snd (submit br be c w)))"
    using w1(3) w2(3) by (simp add: s submit_failed_simps)
  have g: "\<forall>j<i. storage (snd (submit br be c w)) (upload_path be user j (compressedFiles ! j)) \<noteq> None"
    using keep by (simp add: s submit_failed_simps)
  show ?thesis using a b d f g by blast
qed

text \<open>Claim C5 at three images with the second upload failing: no record, and the blob of the
  first image in place.\<close>

theorem submit_upload_failure_leaves_no_record_witness:
  "valid_form example_component
   \<and> current_user (example_backend second_fails) = Some example_user
   \<and> fst (compress_loop example_browser (form_images (report example_component)) [] example_world)
       = Inr [jpeg ''a.jpg'', jpeg ''b.jpg'', jpeg ''c.jpg'']
   \<and> upload_ok (example_backend second_fails) example_user 0 (jpeg ''a.jpg'')
   \<and> \<not> upload_ok (example_backend second_fails) example_user 1 (jpeg ''b.jpg'')
   \<and> reports_col (snd (submit example_browser (example_backend second_fails) example_component
         example_world)) = []
   \<and> storage (snd (submit example_browser (example_backend second_fails) example_component
         example_world)) ''reports/u1/1700_a.jpg'' \<noteq> None"
proof -
  let ?be = "example_backend second_fails"
  let ?cf = "[jpeg ''a.jpg'', jpeg ''b.jpg'', jpeg ''c.jpg'']"
  have imgs: "form_images (report example_component) = three_photos"
    by (simp add: example_component_def example_form_def)
  have c: "fst (compress_loop example_browser (form_images (report example_component)) [] example_world)
       = Inr ?cf"
    by (simp only: imgs example_compress_loop)
  then have c': "compress_loop example_browser (form_images (report example_component)) [] example_world
       = (Inr ?cf, snd (compress_loop example_browser (form_images (report example_component)) []
                          example_world))"
    by (metis prod.collapse)
  have i: "1 < length ?cf" by simp
  have before: "\<forall>j<1. upload_ok ?be example_user j (?cf ! j)"
    using example_upload_ok(1) by simp
  have at: "\<not> upload_ok ?be example_user 1 (?cf ! 1)"
    using example_upload_ok(2) by simp
  have p: "upload_path ?be example_user 0 (?cf ! 0) = ''reports/u1/1700_a.jpg''"
    using example_paths(1) [of second_fails] by simp
  have e: "reports_col example_world = []"
    by (simp add: example_world_def)
  show ?thesis
    using submit_upload_failure_leaves_no_record [OF example_valid example_current_user c' i before at]
      example_valid example_current_user [of second_fails] c example_upload_ok p e
    by (metis zero_less_one)
qed

section \<open>The example submission, run\<close>

lemma example_compress_loop_full:
  "compress_loop example_browser three_photos [] w =
     (Inr [jpeg ''a.jpg'', jpeg ''b.jpg'', jpeg ''c.jpg''],
      w\<lparr>io_log := io_log w @
           [CreateObjectURL (url_count w), LoadImage (photo ''a.png'' 3000000),
            ToBlob 1280 960 first_quality, RevokeObjectURL (url_count w),
            CreateObjectURL (Suc (url_count w)), LoadImage (photo ''b.png'' 3000000),
            ToBlob 1280 960 first_quality, RevokeObjectURL (Suc (url_count w)),
            CreateObjectURL (Suc (Suc (url_count w))), LoadImage (photo ''c.png'' 3000000),
            ToBlob 1280 960 first_quality, RevokeObjectURL (Suc (Suc (url_count w)))],
          url_count := Suc (Suc (Suc (url_count w)))\<rparr>)"
  by (simp add: three_photos_def example_compress jpeg_def strip_extension_def)

lemma example_submit_second_fails:
  "submit example_browser (example_backend second_fails) example_component example_world =
     (example_component\<lparr>progressTotal := 3, progressPerImage := [100, 37, 0], overallPercent := 46,
        progressUploaded := 1, progressPercent := 33\<rparr>,
      \<lparr>io_log = [CreateObjectURL 0, CreateObjectURL 1, CreateObjectURL 2,
            CreateObjectURL 3, LoadImage (photo ''a.png'' 3000000),
            ToBlob 1280 960 first_quality, RevokeObjectURL 3,
            CreateObjectURL 4, LoadImage (photo ''b.png'' 3000000),
            ToBlob 1280 960 first_quality, RevokeObjectURL 4,
            CreateObjectURL 5, LoadImage (photo ''c.png'' 3000000),
            ToBlob 1280 960 first_quality, RevokeObjectURL 5,
            UploadBytes ''reports/u1/1700_a.jpg'' (jpeg ''a.jpg''),
            GetDownloadURL ''reports/u1/1700_a.jpg'',
            UploadBytes ''reports/u1/1701_b.jpg'' (jpeg ''b.jpg''),
            Notify Error ''Failed to submit report. Please try again.'' ''Submission Failed''],
       url_count = 6, reports_col = [],
       storage = [''reports/u1/1700_a.jpg'' \<mapsto> jpeg ''a.jpg'']\<rparr>)"
proof -
  have imgs: "form_images (report example_component) = three_photos"
    by (simp add: example_component_def example_form_def)
  have u0: "uploadSingle (example_backend second_fails) example_user n (jpeg ''a.jpg'') 0 c w =
     (Inr ''https://cdn/reports/u1/1700_a.jpg'',
      on_complete n 0 (on_state_changed n 0 c \<lparr>bytesTransferred = 270000, totalBytes = 270000\<rparr>),
      emit (GetDownloadURL ''reports/u1/1700_a.jpg'')
        ((emit (UploadBytes ''reports/u1/1700_a.jpg'' (jpeg ''a.jpg'')) w)
           \<lparr>storage := (storage w)(''reports/u1/1700_a.jpg'' \<mapsto> jpeg ''a.jpg'')\<rparr>))" for n c w
    by (simp add: uploadSingle_def example_paths Let_def emit_simps)
       (simp add: example_backend_def second_fails_def emit_simps)
  have u1: "uploadSingle (example_backend second_fails) example_user n (jpeg ''b.jpg'') (Suc 0) c w =
     (Inl UploadError,
      on_state_changed n 1 c \<lparr>bytesTransferred = 100000, totalBytes = 270000\<rparr>,
      emit (UploadBytes ''reports/u1/1701_b.jpg'' (jpeg ''b.jpg'')) w)" for n c w
    using example_paths(2) [of second_fails]
    by (simp add: uploadSingle_def Let_def emit_simps)
       (simp add: example_backend_def second_fails_def)
  have p: "js_mul (js_div 270000 270000) 100 = 100"
    "js_mul (js_div 100000 270000) 100 = 1303124892178963 / 35184372088832"
    "js_div 100 3 = 4691249611844267 / 140737488355328"
    "js_div 200 3 = 4691249611844267 / 70368744177664"
    "js_div 137 3 = 6427011968226645 / 140737488355328"
    "js_mul (js_div 1 3) 100 = 2345624805922133 / 70368744177664"
    by (simp_all add: double_eval)
  show ?thesis
    by (simp add: submit_valid [OF example_valid example_current_user] imgs
        example_compress_loop_full u0 u1 submit_failed_def)
       (simp add: prepared_def on_state_changed_def on_complete_def js_set_def reduce_sum_def
          snapshot_percent_def Math_round_def p floor_numeral_div example_component_def
          example_world_def emit_def example_form_def three_photos_def initial_component_def Let_def)
qed

section \<open>How a submission ends\<close>

lemma saveReportWithUrls_simps:
  "reports_col (snd (saveReportWithUrls be user p w)) =
     (if store_accepts be (newReport be user p) then reports_col w @ [(auto_id be, newReport be user p)]
      else reports_col w)"
  "io_log (snd (saveReportWithUrls be user p w)) = io_log w @ [AddDoc (newReport be user p)]"
  "storage (snd (saveReportWithUrls be user p w)) = storage w"
  "(\<exists>e. fst (saveReportWithUrls be user p w) = Inl e) = (\<not> store_accepts be (newReport be user p))"
  by (simp_all add: saveReportWithUrls_def Let_def emit_simps)

lemma submit_invalid_col:
  "\<not> valid_form c \<Longrightarrow> reports_col (snd (submit br be c w)) = reports_col w"
  by (auto simp: submit_def valid_form_def emit_simps)

lemma submit_no_user_col:
  "current_user be = None \<Longrightarrow> reports_col (snd (submit br be c w)) = reports_col w"
  by (auto simp: submit_def emit_simps Let_def)

text \<open>The outcome of a submission that passes validation with a signed-in user.\<close>

lemma submit_outcome:
  assumes v: "valid_form c" and u: "current_user be = Some user"
  shows "(reports_col (snd (submit br be c w)) = reports_col w
          \<and> previews (fst (submit br be c w)) = previews c
          \<and> report (fst (submit br be c w)) = report c
          \<and> \<not> uploading (fst (submit br be c w)))
       \<or> (\<exists>compressedFiles uploadedUrls w1 c3 w2 d.
            compress_loop br (form_images (report c)) [] w = (Inr compressedFiles, w1)
            \<and> upload_loop be user (length compressedFiles) compressedFiles 0 [] (prepared c) w1
                = (Inr uploadedUrls, c3, w2)
            \<and> doc_images d = uploadedUrls \<and> doc_status d = Pending \<and> doc_upvotes d = 0
            \<and> doc_approved d = None
            \<and> reports_col (snd (submit br be c w)) = reports_col w @ [(auto_id be, d)]
            \<and> previews (fst (submit br be c w)) = []
            \<and> progressPerImage (fst (submit br be c w)) = []
            \<and> \<not> uploading (fst (submit br be c w))
            \<and> (\<exists>es es'. io_log (snd (submit br be c w))
                   = io_log w @ es @ map RevokeObjectURL (previews c) @ es'))"
proof -
  obtain r1 w1 where cl: "compress_loop br (form_images (report c)) [] w = (r1, w1)"
    by (cases "compress_loop br (form_images (report c)) [] w")
  have w1: "appends no_store_write w w1" "reports_col w1 = reports_col w"
    using compress_loop_world [of w br "form_images (report c)" "[]"] cl by simp_all
  show ?thesis
  proof (cases r1)
    case (Inl e)
    then have "submit br be c w = submit_failed (prepared c) w1"
      using cl by (simp add: submit_valid [OF v u])
    then show ?thesis
      by (simp add: submit_failed_simps w1 prepared_form)
  next
    case (Inr cf)
    obtain r2 c3 w2 where ul: "upload_loop be user (length cf) cf 0 [] (prepared c) w1 = (r2, c3, w2)"
      by (cases "upload_loop be user (length cf) cf 0 [] (prepared c) w1") auto
    have w2: "appends no_store_write w1 w2" "reports_col w2 = reports_col w1"
      using upload_loop_world [OF ul] by simp_all
    have c3: "report c3 = report c" "previews c3 = previews c"
      using upload_loop_form [OF ul] by (simp_all add: prepared_form)
    show ?thesis
    proof (cases r2)
      case (Inl e)
      then have "submit br be c w = submit_failed c3 w2"
        using cl Inr ul by (simp add: submit_valid [OF v u])
      then show ?thesis
        by (simp add: submit_failed_simps w1 w2 c3)
    next
      case urls: (Inr uploadedUrls)
      define p where "p = \<lparr>p_type = form_type (report c3),
                        p_location = or_else (locationText be c3) ''Unknown Location'',
                        p_description = form_description (report c3),
                        p_imageUrls = uploadedUrls,
                        p_dateTaken = form_dateTaken (report c3),
                        p_timeTaken = form_timeTaken (report c3),
                        p_barangayId = barangay user\<rparr>"
      obtain r3 w3 where sv: "saveReportWithUrls be user p w2 = (r3, w3)"
        by (cases "saveReportWithUrls be user p w2")
      have w3: "io_log w3 = io_log w2 @ [AddDoc (newReport be user p)]"
        using saveReportWithUrls_simps(2) [of be user p w2] sv by simp
      show ?thesis
      proof (cases r3)
        case (Inl e)
        then have "submit br be c w = submit_failed c3 w3"
          using cl Inr ul urls sv by (simp add: submit_valid [OF v u] p_def)
        moreover have "\<not> store_accepts be (newReport be user p)"
          using saveReportWithUrls_simps(4) [of be user p w2] sv Inl by auto
        then have "reports_col w3 = reports_col w2"
          using saveReportWithUrls_simps(1) [of be user p w2] sv by simp
        ultimately show ?thesis
          by (simp add: submit_failed_simps w1 w2 c3)
      next
        case ok: (Inr x)
        have acc: "store_accepts be (newReport be user p)"
          using saveReportWithUrls_simps(4) [of be user p w2] sv ok by auto
        have col: "reports_col w3 = reports_col w @ [(auto_id be, newReport be user p)]"
          using saveReportWithUrls_simps(1) [of be user p w2] sv acc w1 w2 by simp
        obtain es1 where es1: "io_log w1 = io_log w @ es1"
          using w1(1) by (auto simp: appends_def)
        obtain es2 where es2: "io_log w2 = io_log w1 @ es2"
          using w2(1) by (auto simp: appends_def)
        define c5 where "c5 = c3\<lparr>report := reset_form, previews := [], progressPerImage := [],
                                uploading := False\<rparr>"
        define w6 where "w6 = emit (Navigate ''/'') (emit (Notify Success
                             ''Report submitted successfully! Your report will be reviewed and approved by an admin before it is published.''
                             ''Report Submitted'') (revoke_all (previews c3) w3))"
        have s: "submit br be c w = (if navigate_ok be then (c5, w6) else submit_failed c5 w6)"
          using cl Inr ul urls sv ok by (simp add: submit_valid [OF v u] p_def c5_def w6_def)
        have w6col: "reports_col w6 = reports_col w3"
          by (simp add: w6_def emit_simps revoke_all_rest)
        have w6log: "io_log w6 = io_log w @ (es1 @ es2 @ [AddDoc (newReport be user p)])
                       @ map RevokeObjectURL (previews c)
                       @ [Notify Success
                             ''Report submitted successfully! Your report will be reviewed and approved by an admin before it is published.''
                             ''Report Submitted'', Navigate ''/'']"
          by (simp add: w6_def emit_simps revoke_all_log w3 es1 es2 c3)
        have fin: "reports_col (snd (submit br be c w)) = reports_col w @ [(auto_id be, newReport be user p)]"
            "previews (fst (submit br be c w)) = []"
            "progressPerImage (fst (submit br be c w)) = []"
            "\<not> uploading (fst (submit br be c w))"
          by (simp_all add: s submit_failed_simps w6col col c5_def)
        have log: "\<exists>es es'. io_log (snd (submit br be c w))
                   = io_log w @ es @ map RevokeObjectURL (previews c) @ es'"
        proof (cases "navigate_ok be")
          case True
          then have "io_log (snd (submit br be c w)) = io_log w @ (es1 @ es2 @ [AddDoc (newReport be user p)])
                       @ map RevokeObjectURL (previews c)
                       @ [Notify Success
                             ''Report submitted successfully! Your report will be reviewed and approved by an admin before it is published.''
                             ''Report Submitted'', Navigate ''/'']"
            by (simp add: s w6log)
          then show ?thesis by blast
        next
          case False
          then have "io_log (snd (submit br be c w)) = io_log w @ (es1 @ es2 @ [AddDoc (newReport be user p)])
                       @ map RevokeObjectURL (previews c)
                       @ [Notify Success
                             ''Report submitted successfully! Your report will be reviewed and approved by an admin before it is published.''
                             ''Report Submitted'', Navigate ''/'',
                          Notify Error ''Failed to submit report. Please try again.'' ''Submission Failed'']"
            by (simp add: s submit_failed_simps w6log)
          then show ?thesis by blast
        qed
        have d: "doc_images (newReport be user p) = uploadedUrls"
            "doc_status (newReport be user p) = Pending"
            "doc_upvotes (newReport be user p) = 0"
            "doc_approved (newReport be user p) = None"
          by (simp_all add: newReport_def p_def)
        show ?thesis
          using cl Inr ul urls d fin log by blast
      qed
    qed
  qed
qed

text \<open>
  Claim C2, as amended. A submission that creates a report record creates exactly one, with
  status \<open>Pending\<close>, no upvotes and no \<^verbatim>\<open>approved\<close> field at all (the field is absent, which
  the readers of the store take as not approved), and with one URL per accepted image in
  the order of the images: the URL at index \<open>i\<close> is the download URL of the upload of the
  compressed image \<open>i\<close>.
\<close>

theorem submit_persists_pending_report:
  assumes "reports_col (snd (submit br be c w)) \<noteq> reports_col w"
  shows "\<exists>user d. current_user be = Some user
      \<and> reports_col (snd (submit br be c w)) = reports_col w @ [(auto_id be, d)]
      \<and> doc_status d = Pending \<and> doc_approved d = None \<and> doc_upvotes d = 0
      \<and> length (doc_images d) = length (form_images (report c))
      \<and> (\<forall>i<length (form_images (report c)).
            \<exists>g. fst (compressImage br (form_images (report c) ! i) 1280 200 400 w) = Inr g
               \<and> getDownloadURL be (upload_path be user i g) = Some (doc_images d ! i))"
proof -
  have v: "valid_form c"
    using assms submit_invalid_col by blast
  obtain user where u: "current_user be = Some user"
    using assms submit_no_user_col [of be br c w] by (cases "current_user be") auto
  obtain cf urls w1 c3 w2 d where
      cl: "compress_loop br (form_images (report c)) [] w = (Inr cf, w1)"
      and ul: "upload_loop be user (length cf) cf 0 [] (prepared c) w1 = (Inr urls, c3, w2)"
      and d: "doc_images d = urls" "doc_status d = Pending" "doc_upvotes d = 0" "doc_approved d = None"
      and col: "reports_col (snd (submit br be c w)) = reports_col w @ [(auto_id be, d)]"
    using submit_outcome [OF v u, of br w] assms by blast
  have cf: "length cf = length (form_images (report c))"
      "\<forall>i<length (form_images (report c)).
          fst (compressImage br (form_images (report c) ! i) 1280 200 400 w) = Inr (cf ! i)"
    using compress_loop_files [OF cl, of w] by simp_all
  have urls: "length urls = length cf"
      "\<forall>i<length cf. getDownloadURL be (upload_path be user i (cf ! i)) = Some (urls ! i)"
    using upload_loop_urls [OF ul] by simp_all
  have "\<forall>i<length (form_images (report c)).
            \<exists>g. fst (compressImage br (form_images (report c) ! i) 1280 200 400 w) = Inr g
               \<and> getDownloadURL be (upload_path be user i g) = Some (doc_images d ! i)"
    using cf urls d(1) by simp
  then show ?thesis
    using u col d cf(1) urls(1) by auto
qed

lemma submit_previews_end:
  "(reports_col (snd (submit br be c w)) \<noteq> reports_col w \<longrightarrow>
      previews (fst (submit br be c w)) = [] \<and> progressPerImage (fst (submit br be c w)) = []
      \<and> \<not> uploading (fst (submit br be c w))
      \<and> (\<forall>u\<in>set (previews c). RevokeObjectURL u \<in> set (new_events w (snd (submit br be c w)))))
   \<and> (reports_col (snd (submit br be c w)) = reports_col w \<longrightarrow>
      previews (fst (submit br be c w)) = previews c \<and> report (fst (submit br be c w)) = report c)
   \<and> (reports_col (snd (submit br be c w)) = reports_col w \<and> valid_form c \<longrightarrow>
      \<not> uploading (fst (submit br be c w)))"
proof (cases "valid_form c")
  case False
  then have "\<exists>msg title. submit br be c w = (c, emit (Notify Warning msg title) w)"
    by (auto simp: submit_def valid_form_def)
  then show ?thesis using False by (auto simp: emit_simps)
next
  case v: True
  show ?thesis
  proof (cases "current_user be")
    case None
    then have "submit br be c w =
        (c\<lparr>uploading := False\<rparr>,
         emit (Navigate ''/login'')
           (emit (Notify Error ''You must be logged in to submit a report'' ''Not Logged In'') w))"
      using v by (auto simp: submit_def valid_form_def Let_def)
    then show ?thesis by (simp add: emit_simps)
  next
    case (Some user)
    from submit_outcome [OF v Some, of br w] show ?thesis
    proof (elim disjE exE conjE)
      assume "reports_col (snd (submit br be c w)) = reports_col w"
        "previews (fst (submit br be c w)) = previews c"
        "report (fst (submit br be c w)) = report c"
        "\<not> uploading (fst (submit br be c w))"
      then show ?thesis by simp
    next
      fix cf urls w1 c3 w2 d es es'
      assume col: "reports_col (snd (submit br be c w)) = reports_col w @ [(auto_id be, d)]"
        and p: "previews (fst (submit br be c w)) = []"
          "progressPerImage (fst (submit br be c w)) = []"
          "\<not> uploading (fst (submit br be c w))"
        and log: "io_log (snd (submit br be c w)) = io_log w @ es @ map RevokeObjectURL (previews c) @ es'"
      have "new_events w (snd (submit br be c w)) = es @ map RevokeObjectURL (previews c) @ es'"
        by (simp add: new_events_def log)
      then have "\<forall>u\<in>set (previews c). RevokeObjectURL u \<in> set (new_events w (snd (submit br be c w)))"
        by simp
      then show ?thesis using col p by simp
    qed
  qed
qed


lemma appends_weaken: "appends P w w' \<Longrightarrow> (\<And>e. P e \<Longrightarrow> Q e) \<Longrightarrow> appends Q w w'"
  by (auto simp: appends_def list_all_iff)

lemma list_all_map_ToBlob_fresh: "list_all (\<lambda>e. \<not> revokes_below n e) (map (ToBlob nw nh) qs)"
  by (induction qs) simp_all

lemma compressImage_fresh:
  "n \<le> url_count w \<Longrightarrow>
     appends (\<lambda>e. \<not> revokes_below n e) w (snd (compressImage br f maxWidth a b w))
     \<and> n \<le> url_count (snd (compressImage br f maxWidth a b w))"
proof -
  assume n: "n \<le> url_count w"
  have l: "io_log (snd (compressImage br f maxWidth a b w)) =
          io_log w @ new_events w (snd (compressImage br f maxWidth a b w))"
    by (simp add: compressImage_def createObjectURL_def revokeObjectURL_def emit_simps
        new_events_def Let_def split_def split: option.splits)
  have "list_all (\<lambda>e. \<not> revokes_below n e) (new_events w (snd (compressImage br f maxWidth a b w)))"
    using n by (simp add: compressImage_events list_all_map_ToBlob_fresh split: option.splits)
  then have "appends (\<lambda>e. \<not> revokes_below n e) w (snd (compressImage br f maxWidth a b w))"
    unfolding appends_def using l by blast
  moreover have "url_count (snd (compressImage br f maxWidth a b w)) = Suc (url_count w)"
    by (simp add: compressImage_def createObjectURL_def revokeObjectURL_def emit_simps
        Let_def split_def split: option.splits)
  ultimately show ?thesis using n by simp
qed

lemma compress_loop_fresh:
  "n \<le> url_count w \<Longrightarrow> appends (\<lambda>e. \<not> revokes_below n e) w (snd (compress_loop br fs acc w))"
proof (induction fs arbitrary: acc w)
  case Nil
  show ?case by (simp add: appends_refl)
next
  case (Cons f fs)
  obtain r w1 where c: "compressImage br f 1280 200 400 w = (r, w1)"
    by (cases "compressImage br f 1280 200 400 w")
  have a: "appends (\<lambda>e. \<not> revokes_below n e) w w1" "n \<le> url_count w1"
    using compressImage_fresh [OF Cons.prems, of br f 1280 200 400] c by simp_all
  show ?case
  proof (cases r)
    case (Inl e)
    then show ?thesis using c a by simp
  next
    case (Inr g)
    then show ?thesis
      using c a(1) Cons.IH [OF a(2), where acc = "acc @ [g]"] by (auto intro: appends_trans)
  qed
qed

lemma uploadSingle_calls:
  assumes "uploadSingle be user n f idx c w = (r, c', w')"
  shows "appends is_upload_call w w'"
  using assms
  by (auto simp: uploadSingle_def Let_def split_def appends_def emit_simps emit_def
      split: if_splits option.splits)

lemma upload_loop_calls:
  "upload_loop be user n fs idx urls c w = (r, c', w') \<Longrightarrow> appends is_upload_call w w'"
proof (induction fs arbitrary: idx urls c w)
  case Nil
  then show ?case by (simp add: appends_refl)
next
  case (Cons f fs)
  obtain r1 c1 w1 where u: "uploadSingle be user n f idx c w = (r1, c1, w1)"
    by (cases "uploadSingle be user n f idx c w") auto
  show ?case
  proof (cases r1)
    case (Inl e)
    then show ?thesis using u Cons.prems uploadSingle_calls [OF u] by simp
  next
    case (Inr url)
    then have "upload_loop be user n fs (Suc idx) (urls @ [url]) c1 w1 = (r, c', w')"
      using u Cons.prems by simp
    from Cons.IH [OF this] uploadSingle_calls [OF u] show ?thesis
      by (blast intro: appends_trans)
  qed
qed

text \<open>A submission that creates no record revokes none of the object URLs that existed
  before it.\<close>

lemma submit_failure_revokes_nothing_old:
  assumes "reports_col (snd (submit br be c w)) = reports_col w"
  shows "appends (\<lambda>e. \<not> revokes_below (url_count w) e) w (snd (submit br be c w))"
proof (cases "valid_form c")
  case False
  then have "\<exists>msg title. submit br be c w = (c, emit (Notify Warning msg title) w)"
    by (auto simp: submit_def valid_form_def)
  then show ?thesis by (auto simp: appends_emit)
next
  case v: True
  show ?thesis
  proof (cases "current_user be")
    case None
    then have "submit br be c w =
        (c\<lparr>uploading := False\<rparr>,
         emit (Navigate ''/login'')
           (emit (Notify Error ''You must be logged in to submit a report'' ''Not Logged In'') w))"
      using v by (auto simp: submit_def valid_form_def Let_def)
    then show ?thesis
      by (simp add: appends_def emit_simps)
  next
    case (Some user)
    let ?P = "\<lambda>e. \<not> revokes_below (url_count w) e"
    obtain r1 w1 where cl: "compress_loop br (form_images (report c)) [] w = (r1, w1)"
      by (cases "compress_loop br (form_images (report c)) [] w")
    have w1: "appends ?P w w1"
      using compress_loop_fresh [of "url_count w" w br "form_images (report c)" "[]"] cl by simp
    have fl: "appends ?P w0 (snd (submit_failed c0 w0))" for c0 w0
      by (simp add: submit_failed_def appends_emit)
    show ?thesis
    proof (cases r1)
      case (Inl e)
      then have "submit br be c w = submit_failed (prepared c) w1"
        using cl by (simp add: submit_valid [OF v Some])
      then show ?thesis
        using w1 fl [of w1 "prepared c"] by (auto intro: appends_trans)
    next
      case (Inr cf)
      obtain r2 c3 w2 where ul: "upload_loop be user (length cf) cf 0 [] (prepared c) w1 = (r2, c3, w2)"
        by (cases "upload_loop be user (length cf) cf 0 [] (prepared c) w1") auto
      have w2: "appends ?P w1 w2"
        using upload_loop_calls [OF ul] by (rule appends_weaken) (case_tac e, simp_all)
      show ?thesis
      proof (cases r2)
        case (Inl e)
        then have "submit br be c w = submit_failed c3 w2"
          using cl Inr ul by (simp add: submit_valid [OF v Some])
        then show ?thesis
          using w1 w2 fl [of w2 c3] by (auto intro: appends_trans)
      next
        case urls: (Inr uploadedUrls)
        define p where "p = \<lparr>p_type = form_type (report c3),
                        p_location = or_else (locationText be c3) ''Unknown Location'',
                        p_description = form_description (report c3),
                        p_imageUrls = uploadedUrls,
                        p_dateTaken = form_dateTaken (report c3),
                        p_timeTaken = form_timeTaken (report c3),
                        p_barangayId = barangay user\<rparr>"
        obtain r3 w3 where sv: "saveReportWithUrls be user p w2 = (r3, w3)"
          by (cases "saveReportWithUrls be user p w2")
        have w3: "appends ?P w2 w3"
          using saveReportWithUrls_simps(2) [of be user p w2] sv by (simp add: appends_def)
        show ?thesis
        proof (cases r3)
          case (Inl e)
          then have "submit br be c w = submit_failed c3 w3"
            using cl Inr ul urls sv by (simp add: submit_valid [OF v Some] p_def)
          then show ?thesis
            using w1 w2 w3 fl [of w3 c3] by (auto intro: appends_trans)
        next
          case ok: (Inr x)
          have acc: "store_accepts be (newReport be user p)"
            using saveReportWithUrls_simps(4) [of be user p w2] sv ok by auto
          have "reports_col w3 = reports_col w2 @ [(auto_id be, newReport be user p)]"
            using saveReportWithUrls_simps(1) [of be user p w2] sv acc by simp
          moreover have "reports_col w2 = reports_col w"
            using upload_loop_world [OF ul] compress_loop_world [of w br "form_images (report c)" "[]"] cl
            by simp
          moreover have "reports_col (snd (submit br be c w)) = reports_col w3"
            using cl Inr ul urls sv ok
            by (simp add: submit_valid [OF v Some] p_def submit_failed_simps emit_simps revoke_all_rest)
          ultimately have "reports_col (snd (submit br be c w)) \<noteq> reports_col w"
            by simp
          then show ?thesis using assms by simp
        qed
      qed
    qed
  qed
qed

text \<open>
  Claim C9, as amended. A submission that creates the report record revokes every preview
  URL, empties the preview list and the progress array and ends with \<^verbatim>\<open>uploading\<close> false.
  A submission that creates no record keeps the preview list and the form as they were
  and revokes no object URL that existed before it, so none of the previews; when it
  failed after validation it ends with \<^verbatim>\<open>uploading\<close> false.
\<close>

theorem submit_releases_previews_on_success:
  "(reports_col (snd (submit br be c w)) \<noteq> reports_col w \<longrightarrow>
      previews (fst (submit br be c w)) = [] \<and> progressPerImage (fst (submit br be c w)) = []
      \<and> \<not> uploading (fst (submit br be c w))
      \<and> (\<forall>u\<in>set (previews c). RevokeObjectURL u \<in> set (new_events w (snd (submit br be c w)))))
   \<and> (reports_col (snd (submit br be c w)) = reports_col w \<longrightarrow>
      previews (fst (submit br be c w)) = previews c \<and> report (fst (submit br be c w)) = report c
      \<and> (\<forall>u\<in>set (previews c). u < url_count w \<longrightarrow>
            RevokeObjectURL u \<notin> set (new_events w (snd (submit br be c w)))))
   \<and> (reports_col (snd (submit br be c w)) = reports_col w \<and> valid_form c \<longrightarrow>
      \<not> uploading (fst (submit br be c w)))"
proof -
  have "\<forall>u\<in>set (previews c). u < url_count w \<longrightarrow>
            RevokeObjectURL u \<notin> set (new_events w (snd (submit br be c w)))"
    if "reports_col (snd (submit br be c w)) = reports_col w"
    using appends_new_events [OF submit_failure_revokes_nothing_old [OF that]] by fastforce
  then show ?thesis
    using submit_previews_end [of br be c w] by blast
qed

lemma example_uploadSingle_complete:
  "uploadSingle (example_backend all_complete) example_user n f idx c w =
     (Inr (''https://cdn/'' @ upload_path (example_backend all_complete) example_user idx f),
      on_complete n idx (on_state_changed n idx c \<lparr>bytesTransferred = 270000, totalBytes = 270000\<rparr>),
      emit (GetDownloadURL (upload_path (example_backend all_complete) example_user idx f))
        ((emit (UploadBytes (upload_path (example_backend all_complete) example_user idx f) f) w)
           \<lparr>storage := (storage w)(upload_path (example_backend all_complete) example_user idx f \<mapsto> f)\<rparr>))"
proof -
  have r: "upload_run (example_backend all_complete) p f =
             ([\<lparr>bytesTransferred = 270000, totalBytes = 270000\<rparr>], True)"
    and g: "getDownloadURL (example_backend all_complete) p = Some (''https://cdn/'' @ p)" for p
    by (simp_all add: example_backend_def all_complete_def)
  show ?thesis
    by (simp add: uploadSingle_def Let_def r g emit_simps)
qed

lemma example_submit_all_complete:
  "reports_col (snd (submit example_browser (example_backend all_complete) example_component
      example_world)) = [(''r1'', example_doc)]"
proof -
  have imgs: "form_images (report example_component) = three_photos"
    by (simp add: example_component_def example_form_def)
  have p: "upload_path (example_backend all_complete) example_user 0 (jpeg ''a.jpg'') = ''reports/u1/1700_a.jpg''"
    "upload_path (example_backend all_complete) example_user (Suc 0) (jpeg ''b.jpg'') = ''reports/u1/1701_b.jpg''"
    "upload_path (example_backend all_complete) example_user (Suc (Suc 0)) (jpeg ''c.jpg'') = ''reports/u1/1702_c.jpg''"
    using example_paths [of all_complete] by (simp_all add: numeral_2_eq_2)
  have be: "store_accepts (example_backend all_complete) d" "auto_id (example_backend all_complete) = ''r1''"
    "toLocaleDateString (example_backend all_complete) = ''11/2/2026''"
    "toLocaleTimeString (example_backend all_complete) = ''10:00:00 AM''"
    "navigate_ok (example_backend all_complete)" for d
    by (simp_all add: example_backend_def)
  show ?thesis
    by (simp add: submit_valid [OF example_valid example_current_user] imgs
        example_compress_loop_full example_uploadSingle_complete p)
       (simp add: saveReportWithUrls_def newReport_def be Let_def emit_simps revoke_all_rest
          revokeObjectURL_def on_complete_def on_state_changed_def prepared_def locationText_def
          or_else_def initial_component_def example_component_def example_form_def example_user_def
          example_world_def example_doc_def)
qed

lemma example_world_col: "reports_col example_world = []"
  by (simp add: example_world_def)

text \<open>Claim C2 at the example submission with every upload completing.\<close>

theorem submit_persists_pending_report_witness:
  "reports_col (snd (submit example_browser (example_backend all_complete) example_component example_world))
     \<noteq> reports_col example_world
   \<and> (\<exists>user d. current_user (example_backend all_complete) = Some user
         \<and> reports_col (snd (submit example_browser (example_backend all_complete) example_component
               example_world)) = reports_col example_world @ [(auto_id (example_backend all_complete), d)]
         \<and> doc_status d = Pending \<and> doc_approved d = None \<and> doc_upvotes d = 0
         \<and> length (doc_images d) = length (form_images (report example_component)))"
proof -
  have h: "reports_col (snd (submit example_browser (example_backend all_complete) example_component
             example_world)) \<noteq> reports_col example_world"
    using example_world_col by (simp add: example_submit_all_complete)
  show ?thesis
    using h submit_persists_pending_report [OF h] by blast
qed

text \<open>
  Claim C2 as stated fails on the approval flag: the record the example submission stores
  has no \<^verbatim>\<open>approved\<close> field, so the flag is not \<^verbatim>\<open>false\<close>.
\<close>

theorem submit_record_approved_absent_counterexample:
  "reports_col (snd (submit example_browser (example_backend all_complete) example_component example_world))
     = [(''r1'', example_doc)]
   \<and> doc_approved example_doc = None
   \<and> doc_approved example_doc \<noteq> Some False"
  by (simp add: example_submit_all_complete) (simp add: example_doc_def)

text \<open>Claim C9 at the example submission with every upload completing: the three previews are
  revoked and cleared.\<close>

theorem submit_releases_previews_on_success_witness:
  "reports_col (snd (submit example_browser (example_backend all_complete) example_component example_world))
     \<noteq> reports_col example_world
   \<and> previews example_component = [0, 1, 2]
   \<and> previews (fst (submit example_browser (example_backend all_complete) example_component example_world)) = []
   \<and> progressPerImage (fst (submit example_browser (example_backend all_complete) example_component
        example_world)) = []
   \<and> RevokeObjectURL 0 \<in> set (new_events example_world
        (snd (submit example_browser (example_backend all_complete) example_component example_world)))"
proof -
  have h: "reports_col (snd (submit example_browser (example_backend all_complete) example_component
             example_world)) \<noteq> reports_col example_world"
    using example_world_col by (simp add: example_submit_all_complete)
  have p: "previews example_component = [0, 1, 2]"
    by (simp add: example_component_def)
  show ?thesis
    using h p submit_releases_previews_on_success [of example_browser "example_backend all_complete"
        example_component example_world]
    by simp
qed

text \<open>
  Claim C9 as stated fails on the failure path: when the second upload of the example
  fails, no record is created, the three preview URLs are still held and none of them is
  revoked, and the progress array is not cleared.
\<close>

theorem submit_failure_keeps_previews_counterexample:
  "reports_col (snd (submit example_browser (example_backend second_fails) example_component example_world))
     = reports_col example_world
   \<and> previews (fst (submit example_browser (example_backend second_fails) example_component example_world))
     = [0, 1, 2]
   \<and> RevokeObjectURL 0 \<notin> set (io_log
        (snd (submit example_browser (example_backend second_fails) example_component example_world)))
   \<and> progressPerImage (fst (submit example_browser (example_backend second_fails) example_component
        example_world)) = [100, 37, 0]"
  by (simp add: example_submit_second_fails) (simp add: example_component_def example_world_def)

section \<open>The overall percentage on a retry\<close>

text \<open>
  Claim C3 at a retry. The failed attempt leaves \<^verbatim>\<open>overallPercent\<close> at 46. The next
  \<^verbatim>\<open>submit\<close> resets the progress array to zeros, as it resets \<^verbatim>\<open>progressPercent\<close>, but not
  \<^verbatim>\<open>overallPercent\<close>: the first upload starts and fails with no progress event, and the
  overall percentage is still 46 while the rounded mean of the task percentages is 0.
\<close>

theorem overallPercent_stale_on_retry:
  "overallPercent (fst after_failed_attempt) = 46
   \<and> progressPerImage (fst (submit example_browser (example_backend never_starts)
        (fst after_failed_attempt) (snd after_failed_attempt))) = [0, 0, 0]
   \<and> overallPercent (fst (submit example_browser (example_backend never_starts)
        (fst after_failed_attempt) (snd after_failed_attempt))) = 46
   \<and> Math_round (of_int (reduce_sum [0, 0, 0]) / of_nat 3) = 0
   \<and> UploadBytes ''reports/u1/1700_a.jpg'' (jpeg ''a.jpg'') \<in> set (new_events (snd after_failed_attempt)
        (snd (submit example_browser (example_backend never_starts)
           (fst after_failed_attempt) (snd after_failed_attempt))))"
proof -
  define c1 where "c1 = fst after_failed_attempt"
  define w1 where "w1 = snd after_failed_attempt"
  have c1: "c1 = example_component\<lparr>progressTotal := 3, progressPerImage := [100, 37, 0],
        overallPercent := 46, progressUploaded := 1, progressPercent := 33\<rparr>"
    by (simp add: c1_def after_failed_attempt_def example_submit_second_fails)
  have v: "valid_form c1"
    using example_valid by (simp add: c1 valid_form_def)
  have imgs: "form_images (report c1) = three_photos"
    by (simp add: c1 example_component_def example_form_def)
  have u0: "uploadSingle (example_backend never_starts) example_user n (jpeg ''a.jpg'') 0 c w =
     (Inl UploadError, c, emit (UploadBytes ''reports/u1/1700_a.jpg'' (jpeg ''a.jpg'')) w)" for n c w
    using example_paths(1) [of never_starts]
    by (simp add: uploadSingle_def Let_def) (simp add: example_backend_def never_starts_def)
  have s: "submit example_browser (example_backend never_starts) c1 w1 =
      submit_failed (prepared c1)
        (emit (UploadBytes ''reports/u1/1700_a.jpg'' (jpeg ''a.jpg''))
           (snd (compress_loop example_browser three_photos [] w1)))"
    by (simp add: submit_valid [OF v example_current_user] imgs example_compress_loop_full u0)
  have l: "io_log (snd (compress_loop example_browser three_photos [] w1)) = io_log w1 @
           [CreateObjectURL (url_count w1), LoadImage (photo ''a.png'' 3000000),
            ToBlob 1280 960 first_quality, RevokeObjectURL (url_count w1),
            CreateObjectURL (Suc (url_count w1)), LoadImage (photo ''b.png'' 3000000),
            ToBlob 1280 960 first_quality, RevokeObjectURL (Suc (url_count w1)),
            CreateObjectURL (Suc (Suc (url_count w1))), LoadImage (photo ''c.png'' 3000000),
            ToBlob 1280 960 first_quality, RevokeObjectURL (Suc (Suc (url_count w1)))]"
    by (simp add: example_compress_loop_full)
  have a: "overallPercent c1 = 46" by (simp add: c1)
  have b: "progressPerImage (fst (submit example_browser (example_backend never_starts) c1 w1)) = [0, 0, 0]"
    by (simp add: s submit_failed_simps prepared_def imgs three_photos_def)
  have c: "overallPercent (fst (submit example_browser (example_backend never_starts) c1 w1)) = 46"
    by (simp add: s submit_failed_def prepared_def a)
  have d: "Math_round (of_int (reduce_sum [0, 0, 0]) / of_nat 3) = 0"
    by (simp add: reduce_sum_def Math_round_def floor_eq_iff)
  have e: "UploadBytes ''reports/u1/1700_a.jpg'' (jpeg ''a.jpg'') \<in> set (new_events w1
        (snd (submit example_browser (example_backend never_starts) c1 w1)))"
    by (simp add: s submit_failed_simps emit_simps l new_events_def)
  show ?thesis
    using a b c d e unfolding c1_def w1_def by blast
qed

section \<open>The stored status under the dashboard operations\<close>

lemma updateDoc_map_of:
  "updateDoc col rid p = Some col' \<Longrightarrow>
     map_of col' k = (if k = rid then map_option (apply_patch p) (map_of col k) else map_of col k)"
proof (induction col arbitrary: col')
  case Nil
  then show ?case by simp
next
  case (Cons kd col)
  obtain k0 d where kd: "kd = (k0, d)" by (cases kd)
  show ?case
  proof (cases "k0 = rid")
    case True
    then show ?thesis using Cons.prems kd by auto
  next
    case False
    then obtain c where c: "updateDoc col rid p = Some c" and col': "col' = (k0, d) # c"
      using Cons.prems kd by auto
    show ?thesis
      using Cons.IH [OF c] False by (auto simp: col' kd split: if_splits)
  qed
qed

lemma updateDoc_exists: "(updateDoc col rid p \<noteq> None) = (map_of col rid \<noteq> None)"
  by (induction col) auto

text \<open>The collection after an attempted write.\<close>

lemma written_map_of:
  "map_of (case updateReport fs col rid p of Inl msg \<Rightarrow> col | Inr col' \<Rightarrow> col') k =
     (if k = rid \<and> outage fs = None then map_option (apply_patch p) (map_of col k) else map_of col k)"
proof (cases "updateDoc col rid p")
  case None
  then have "map_of col rid = None" using updateDoc_exists [of col rid p] by simp
  then show ?thesis using None by (simp add: updateReport_def split: option.splits)
next
  case (Some col')
  show ?thesis
    using updateDoc_map_of [OF Some, of k] Some
    by (auto simp: updateReport_def split: option.splits if_splits)
qed

lemma written_status:
  "stored_status (case updateReport fs col rid p of Inl msg \<Rightarrow> col | Inr col' \<Rightarrow> col') k =
     (if k = rid \<and> outage fs = None \<and> map_of col rid \<noteq> None
      then (case patch_status p of None \<Rightarrow> stored_status col k | Some s \<Rightarrow> Some s)
      else stored_status col k)"
  by (cases "map_of col rid"; cases "patch_status p")
     (simp_all add: stored_status_def written_map_of apply_patch_def)

lemma written_approved:
  "stored_approved (case updateReport fs col rid p of Inl msg \<Rightarrow> col | Inr col' \<Rightarrow> col') k =
     (if k = rid \<and> outage fs = None \<and> map_of col rid \<noteq> None
      then (case patch_approved p of None \<Rightarrow> stored_approved col k | Some a \<Rightarrow> Some (Some a))
      else stored_approved col k)"
  by (cases "map_of col rid"; cases "patch_approved p")
     (simp_all add: stored_approved_def written_map_of apply_patch_def)

lemma updateReport_stored_status:
  "updateReport fs col rid p = Inr col' \<Longrightarrow>
     stored_status col' k =
       (if k = rid then (case patch_status p of None \<Rightarrow> stored_status col k | Some s \<Rightarrow> Some s)
        else stored_status col k)"
  using written_status [where fs = fs and col = col and rid = rid and p = p and k = k]
    updateDoc_exists [of col rid p]
  by (auto simp: updateReport_def split: option.splits)

lemma updateReport_succeeds:
  "outage fs = None \<Longrightarrow> map_of col rid \<noteq> None \<Longrightarrow> \<exists>col'. updateReport fs col rid p = Inr col'"
  using updateDoc_exists [of col rid p] by (auto simp: updateReport_def split: option.splits)

text \<open>The collection each operation leaves.\<close>

lemma snd_updateStatus:
  "snd (updateStatus fs i s dash col) =
     (if i < length (reports dash) \<and> \<not> no_id (reports dash ! i)
      then (case updateReport fs col (the (fst (reports dash ! i)))
                   \<lparr>patch_status = Some s, patch_approved = None\<rparr> of
              Inl msg \<Rightarrow> col | Inr col' \<Rightarrow> col')
      else col)"
  by (simp add: updateStatus_def Let_def split: sum.splits)

lemma snd_updateStatus_confirm:
  "snd (updateStatus_confirm confirmed fs i t dash col) =
     (if i < length (reports dash) \<and> \<not> no_id (reports dash ! i) \<and> (t = To_Done \<longrightarrow> confirmed)
      then (case updateReport fs col (the (fst (reports dash ! i)))
                   \<lparr>patch_status = Some (status_of t), patch_approved = None\<rparr> of
              Inl msg \<Rightarrow> col | Inr col' \<Rightarrow> col')
      else col)"
  by (simp add: updateStatus_confirm_def Let_def split: sum.splits)

lemma snd_approveReport_in_progress:
  "snd (approveReport_in_progress fs i dash col) =
     (if i < length (reports dash) \<and> \<not> no_id (reports dash ! i)
      then (case updateReport fs col (the (fst (reports dash ! i)))
                   \<lparr>patch_status = Some In_Progress, patch_approved = Some True\<rparr> of
              Inl msg \<Rightarrow> col | Inr col' \<Rightarrow> col')
      else col)"
  by (simp add: approveReport_in_progress_def Let_def split: sum.splits)

lemma snd_approveReport:
  "snd (approveReport fs i dash col) =
     (if i < length (reports dash) \<and> \<not> no_id (reports dash ! i)
      then (case updateReport fs col (the (fst (reports dash ! i)))
                   \<lparr>patch_status = None, patch_approved = Some True\<rparr> of
              Inl msg \<Rightarrow> col | Inr col' \<Rightarrow> col')
      else col)"
  by (simp add: approveReport_def Let_def split: sum.splits)

lemma snd_unapproveReport:
  "snd (unapproveReport fs i dash col) =
     (if i < length (reports dash) \<and> \<not> no_id (reports dash ! i)
      then (case updateReport fs col (the (fst (reports dash ! i)))
                   \<lparr>patch_status = None, patch_approved = Some False\<rparr> of
              Inl msg \<Rightarrow> col | Inr col' \<Rightarrow> col')
      else col)"
  by (simp add: unapproveReport_def Let_def split: sum.splits)

lemmas snd_operation =
  snd_updateStatus snd_updateStatus_confirm snd_approveReport_in_progress snd_approveReport
  snd_unapproveReport

lemma approval_keeps_status:
  "stored_status (snd (approveReport fs i dash col)) k = stored_status col k"
  "stored_status (snd (unapproveReport fs i dash col)) k = stored_status col k"
  by (simp_all add: snd_operation written_status)

lemma approval_writes_flag:
  assumes "reaches fs dash i col k"
  shows "stored_approved (snd (approveReport fs i dash col)) k = Some (Some True)"
    and "stored_approved (snd (unapproveReport fs i dash col)) k = Some (Some False)"
    and "stored_approved (snd (approveReport_in_progress fs i dash col)) k = Some (Some True)"
  using assms by (simp_all add: reaches_def snd_operation written_approved no_id_def)

lemma operation_writes_status:
  assumes "reaches fs dash i col k"
  shows "stored_status (snd (updateStatus fs i s dash col)) k = Some s"
    and "t = To_Done \<longrightarrow> confirmed \<Longrightarrow>
           stored_status (snd (updateStatus_confirm confirmed fs i t dash col)) k = Some (status_of t)"
    and "stored_status (snd (approveReport_in_progress fs i dash col)) k = Some In_Progress"
  using assms by (simp_all add: reaches_def snd_operation written_status no_id_def)

lemma operation_leaves_others:
  assumes "\<not> reaches fs dash i col k"
  shows "stored_status (snd (updateStatus fs i s dash col)) k = stored_status col k"
    and "stored_status (snd (updateStatus_confirm confirmed fs i t dash col)) k = stored_status col k"
    and "stored_status (snd (approveReport_in_progress fs i dash col)) k = stored_status col k"
  using assms
  by (auto simp: reaches_def snd_operation written_status no_id_def split: option.splits)

lemma declined_writes_nothing:
  "updateStatus_confirm False fs i To_Done dash col = (dash, col)"
  by (simp add: updateStatus_confirm_def Let_def)

lemma later_status_forward:
  "cur \<noteq> Done \<Longrightarrow> status_rank cur \<le> status_rank (status_of t)"
  "cur \<noteq> Done \<Longrightarrow> status_rank cur \<le> status_rank In_Progress"
  by (cases cur; cases t; simp)+

text \<open>
  Claim C6, as amended. A report is created \<open>Pending\<close>. \<^verbatim>\<open>unapproveReport\<close> and the
  \<^verbatim>\<open>approveReport\<close> of \<^verbatim>\<open>part_002\<close> never change a stored status; they store the approval
  flag. A dashboard operation writes when the report has an identifier, the store is
  reached and the document exists, and leaves every other stored status as it is. On a
  report that is not yet \<open>Done\<close>, the dashboard of \<^verbatim>\<open>part_001\<close> moves the stored status only
  forward: its \<^verbatim>\<open>updateStatus\<close> can be asked for \<open>In Progress\<close> and \<open>Done\<close> only, writes
  nothing when the confirmation for \<open>Done\<close> is declined and otherwise stores the requested
  status, and its \<^verbatim>\<open>approveReport\<close> stores \<open>In Progress\<close>. The \<^verbatim>\<open>updateStatus\<close> of
  \<^verbatim>\<open>part_002\<close> stores any of the three statuses it is asked for, and \<^verbatim>\<open>updateReport\<close> the
  status it is given: there the stored status moves backward exactly when an earlier
  status is requested.
\<close>

theorem status_is_written_as_requested:
  "doc_status (newReport be user pl) = Pending
   \<and> stored_status (snd (unapproveReport fs i dash col)) k = stored_status col k
   \<and> stored_status (snd (approveReport fs i dash col)) k = stored_status col k
   \<and> (reaches fs dash i col k \<longrightarrow>
         stored_approved (snd (unapproveReport fs i dash col)) k = Some (Some False)
       \<and> stored_approved (snd (approveReport fs i dash col)) k = Some (Some True))
   \<and> (reaches fs dash i col k \<longrightarrow>
         stored_status (snd (updateStatus fs i s dash col)) k = Some s)
   \<and> (\<not> reaches fs dash i col k \<longrightarrow>
         stored_status (snd (updateStatus fs i s dash col)) k = stored_status col k
       \<and> stored_status (snd (updateStatus_confirm confirmed fs i t dash col)) k = stored_status col k
       \<and> stored_status (snd (approveReport_in_progress fs i dash col)) k = stored_status col k)
   \<and> updateStatus_confirm False fs i To_Done dash col = (dash, col)
   \<and> (reaches fs dash i col k \<and> (t = To_Done \<longrightarrow> confirmed)
        \<and> stored_status col k = Some cur \<and> cur \<noteq> Done \<longrightarrow>
         stored_status (snd (updateStatus_confirm confirmed fs i t dash col)) k = Some (status_of t)
       \<and> status_rank cur \<le> status_rank (status_of t))
   \<and> (reaches fs dash i col k \<and> stored_status col k = Some cur \<and> cur \<noteq> Done \<longrightarrow>
         stored_status (snd (approveReport_in_progress fs i dash col)) k = Some In_Progress
       \<and> stored_approved (snd (approveReport_in_progress fs i dash col)) k = Some (Some True)
       \<and> status_rank cur \<le> status_rank In_Progress)
   \<and> (\<forall>col'. updateReport fs col k p = Inr col' \<longrightarrow>
         stored_status col' k = (case patch_status p of None \<Rightarrow> stored_status col k | Some s' \<Rightarrow> Some s'))
   \<and> (outage fs = None \<and> map_of col k \<noteq> None \<longrightarrow> (\<exists>col'. updateReport fs col k p = Inr col'))"
proof -
  have a: "doc_status (newReport be user pl) = Pending"
    by (simp add: newReport_def)
  have b: "\<forall>col'. updateReport fs col k p = Inr col' \<longrightarrow>
         stored_status col' k = (case patch_status p of None \<Rightarrow> stored_status col k | Some s' \<Rightarrow> Some s')"
    using updateReport_stored_status [where fs = fs and col = col and rid = k and p = p and k = k]
    by simp
  have c: "reaches fs dash i col k \<longrightarrow>
         stored_approved (snd (unapproveReport fs i dash col)) k = Some (Some False)
       \<and> stored_approved (snd (approveReport fs i dash col)) k = Some (Some True)"
    using approval_writes_flag(1,2) by blast
  have d: "reaches fs dash i col k \<longrightarrow>
         stored_status (snd (updateStatus fs i s dash col)) k = Some s"
    using operation_writes_status(1) by blast
  have e: "\<not> reaches fs dash i col k \<longrightarrow>
         stored_status (snd (updateStatus fs i s dash col)) k = stored_status col k
       \<and> stored_status (snd (updateStatus_confirm confirmed fs i t dash col)) k = stored_status col k
       \<and> stored_status (snd (approveReport_in_progress fs i dash col)) k = stored_status col k"
    using operation_leaves_others by blast
  have f: "reaches fs dash i col k \<and> (t = To_Done \<longrightarrow> confirmed)
        \<and> stored_status col k = Some cur \<and> cur \<noteq> Done \<longrightarrow>
         stored_status (snd (updateStatus_confirm confirmed fs i t dash col)) k = Some (status_of t)
       \<and> status_rank cur \<le> status_rank (status_of t)"
    using operation_writes_status(2) later_status_forward(1) by blast
  have g: "reaches fs dash i col k \<and> stored_status col k = Some cur \<and> cur \<noteq> Done \<longrightarrow>
         stored_status (snd (approveReport_in_progress fs i dash col)) k = Some In_Progress
       \<and> stored_approved (snd (approveReport_in_progress fs i dash col)) k = Some (Some True)
       \<and> status_rank cur \<le> status_rank In_Progress"
    using operation_writes_status(3) approval_writes_flag(3) later_status_forward(2) by blast
  have h: "outage fs = None \<and> map_of col k \<noteq> None \<longrightarrow> (\<exists>col'. updateReport fs col k p = Inr col')"
    using updateReport_succeeds by blast
  show ?thesis
    using a b c d e f g h approval_keeps_status [of fs i dash col k]
      declined_writes_nothing [of fs i dash col]
    by blast
qed

lemma example_reaches:
  "reaches example_store (example_dashboard d) 0 [(''r1'', d)] ''r1''"
  by (simp add: reaches_def example_store_def example_dashboard_def)

text \<open>Claim C6 at a pending report: the dashboard of \<^verbatim>\<open>part_001\<close> moves it to \<open>In Progress\<close>
  by an approval and to \<open>Done\<close> after a confirmation, and the one of \<^verbatim>\<open>part_002\<close> to
  \<open>In Progress\<close>.\<close>

theorem status_is_written_as_requested_witness:
  "reaches example_store (example_dashboard example_doc) 0 [(''r1'', example_doc)] ''r1''
   \<and> stored_status [(''r1'', example_doc)] ''r1'' = Some Pending
   \<and> Pending \<noteq> Done
   \<and> outage example_store = None \<and> map_of [(''r1'', example_doc)] ''r1'' \<noteq> None
   \<and> stored_status (snd (updateStatus example_store 0 In_Progress
         (example_dashboard example_doc) [(''r1'', example_doc)])) ''r1'' = Some In_Progress
   \<and> stored_status (snd (updateStatus_confirm True example_store 0 To_Done
         (example_dashboard example_doc) [(''r1'', example_doc)])) ''r1'' = Some Done
   \<and> stored_status (snd (approveReport_in_progress example_store 0
         (example_dashboard example_doc) [(''r1'', example_doc)])) ''r1'' = Some In_Progress
   \<and> stored_approved (snd (unapproveReport example_store 0
         (example_dashboard example_doc) [(''r1'', example_doc)])) ''r1'' = Some (Some False)
   \<and> \<not> reaches example_store (example_dashboard example_doc) 0 [(''r1'', example_doc)] ''r2''
   \<and> stored_status (snd (updateStatus example_store 0 In_Progress
         (example_dashboard example_doc) [(''r1'', example_doc)])) ''r2''
       = stored_status [(''r1'', example_doc)] ''r2''"
proof -
  have b: "stored_status [(''r1'', example_doc)] ''r1'' = Some Pending"
    by (simp add: stored_status_def example_doc_def)
  have c: "outage example_store = None" "map_of [(''r1'', example_doc)] ''r1'' \<noteq> None"
    by (simp_all add: example_store_def)
  have d: "\<not> reaches example_store (example_dashboard example_doc) 0 [(''r1'', example_doc)] ''r2''"
    by (simp add: reaches_def)
  show ?thesis
    using b c d example_reaches [of example_doc]
      status_is_written_as_requested [where fs = example_store and i = 0
        and dash = "example_dashboard example_doc" and col = "[(''r1'', example_doc)]"
        and k = "''r1''" and s = In_Progress and t = To_Done and confirmed = True and cur = Pending]
      status_is_written_as_requested [where fs = example_store and i = 0
        and dash = "example_dashboard example_doc" and col = "[(''r1'', example_doc)]"
        and k = "''r2''" and s = In_Progress and t = To_Done and confirmed = True]
    by simp
qed

text \<open>On a report that is \<open>Done\<close> the \<^verbatim>\<open>updateStatus\<close> and the \<^verbatim>\<open>approveReport\<close> of
  \<^verbatim>\<open>part_001\<close> store \<open>In Progress\<close> as well, although the confirmation of lines 242 to 246
  calls the step to \<open>Done\<close> permanent.\<close>

lemma done_report_reopened:
  "stored_status (snd (updateStatus_confirm False example_store 0 To_In_Progress
         (example_dashboard done_doc) [(''r1'', done_doc)])) ''r1'' = Some In_Progress
   \<and> stored_status (snd (approveReport_in_progress example_store 0
         (example_dashboard done_doc) [(''r1'', done_doc)])) ''r1'' = Some In_Progress"
  using operation_writes_status(2,3) [OF example_reaches [of done_doc]] by simp

text \<open>
  Claim C6 as stated fails: on a report that is \<open>Done\<close>, the \<^verbatim>\<open>updateStatus\<close> of \<^verbatim>\<open>part_002\<close>
  asked for \<open>Pending\<close> stores \<open>Pending\<close>, and so does \<^verbatim>\<open>updateReport\<close> given the status
  \<open>Pending\<close>.
\<close>

theorem status_moves_backward_counterexample:
  "stored_status [(''r1'', done_doc)] ''r1'' = Some Done
   \<and> stored_status (snd (updateStatus example_store 0 Pending
         (example_dashboard done_doc) [(''r1'', done_doc)])) ''r1'' = Some Pending
   \<and> updateReport example_store [(''r1'', done_doc)] ''r1''
         \<lparr>patch_status = Some Pending, patch_approved = None\<rparr>
       = Inr [(''r1'', done_doc\<lparr>doc_status := Pending\<rparr>)]
   \<and> stored_status [(''r1'', done_doc\<lparr>doc_status := Pending\<rparr>)] ''r1'' = Some Pending
   \<and> status_rank Pending < status_rank Done"
  by (simp add: stored_status_def snd_updateStatus updateReport_def example_store_def
        example_dashboard_def no_id_def apply_patch_def done_doc_def)

section \<open>The overall percentage after the events of a batch\<close>

text \<open>After every progress event and every completion the overall percentage is the rounded
  mean of the progress array, and when every upload of a batch has completed it is 100.\<close>

lemma foldl_plus: "foldl (\<lambda>s p. s + p) a xs = a + sum_list xs" for a :: int
  by (induction xs arbitrary: a) simp_all

lemma reduce_sum_sum_list: "reduce_sum xs = sum_list xs"
  by (simp add: reduce_sum_def foldl_plus)

text \<open>The percentage of 29 bytes of 200 is \<^verbatim>\<open>14.499999999999998\<close> as a double, and rounds
  to 14.\<close>

lemma snapshot_percent_below_tie:
  "snapshot_percent \<lparr>bytesTransferred = 29, totalBytes = 200\<rparr> = 14"
proof -
  have e: "js_mul (js_div 29 200) 100 = 8162774324609023 / 562949953421312"
    by (simp add: double_eval)
  show ?thesis
    by (simp add: snapshot_percent_def e Math_round_def floor_numeral_div)
qed

lemma on_state_changed_overall:
  "overallPercent (on_state_changed n idx c sn) =
     Math_round (js_div (of_int (sum_list (progressPerImage (on_state_changed n idx c sn)))) (of_nat n))"
  "idx < length (progressPerImage c) \<Longrightarrow>
     progressPerImage (on_state_changed n idx c sn) = (progressPerImage c)[idx := snapshot_percent sn]"
  by (simp_all add: on_state_changed_def Let_def reduce_sum_sum_list js_set_def)

lemma on_complete_overall:
  "overallPercent (on_complete n idx c) =
     Math_round (js_div (of_int (sum_list (progressPerImage (on_complete n idx c)))) (of_nat n))"
  "idx < length (progressPerImage c) \<Longrightarrow>
     progressPerImage (on_complete n idx c) = (progressPerImage c)[idx := 100]"
  by (simp_all add: on_complete_def Let_def reduce_sum_sum_list js_set_def)

lemma foldl_on_state_changed_progress:
  "idx < length (progressPerImage c) \<Longrightarrow>
     \<exists>v. progressPerImage (foldl (on_state_changed n idx) c sns) = (progressPerImage c)[idx := v]"
proof (induction sns arbitrary: c)
  case Nil
  then show ?case by (metis foldl_Nil list_update_id)
next
  case (Cons sn sns)
  have l: "idx < length (progressPerImage (on_state_changed n idx c sn))"
    using Cons.prems by (simp add: on_state_changed_overall(2))
  show ?case
    using Cons.IH [OF l] Cons.prems by (simp add: on_state_changed_overall(2))
qed

lemma foldl_on_state_changed_overall:
  "sns \<noteq> [] \<Longrightarrow>
     overallPercent (foldl (on_state_changed n idx) c sns) =
       Math_round (js_div (of_int (sum_list (progressPerImage (foldl (on_state_changed n idx) c sns))))
                     (of_nat n))"
proof (induction sns arbitrary: c)
  case Nil
  then show ?case by simp
next
  case (Cons sn sns)
  show ?case
  proof (cases "sns = []")
    case True
    then show ?thesis by (simp add: on_state_changed_overall(1))
  next
    case False
    then show ?thesis using Cons.IH [of "on_state_changed n idx c sn"] by simp
  qed
qed

lemma upload_loop_all_complete:
  "upload_loop be user n fs idx urls c w = (Inr urls', c', w') \<Longrightarrow>
   progressPerImage c = replicate idx 100 @ replicate (length fs) 0 \<Longrightarrow>
   progressPerImage c' = replicate (idx + length fs) 100
   \<and> (fs \<noteq> [] \<longrightarrow> overallPercent c' =
         Math_round (js_div (of_int (sum_list (progressPerImage c'))) (of_nat n)))"
proof (induction fs arbitrary: idx urls c w)
  case Nil
  then show ?case by simp
next
  case (Cons f fs)
  obtain r1 c1 w1 where u: "uploadSingle be user n f idx c w = (r1, c1, w1)"
    by (cases "uploadSingle be user n f idx c w") auto
  show ?case
  proof (cases r1)
    case (Inl e)
    then show ?thesis using u Cons.prems by simp
  next
    case (Inr url)
    define c0 where "c0 = foldl (on_state_changed n idx) c (fst (upload_run be (upload_path be user idx f) f))"
    have c1: "c1 = on_complete n idx c0"
      using u Inr by (auto simp: uploadSingle_def Let_def split_def c0_def split: if_splits option.splits)
    have len: "idx < length (progressPerImage c)"
      using Cons.prems(2) by simp
    obtain v where v: "progressPerImage c0 = (progressPerImage c)[idx := v]"
      using foldl_on_state_changed_progress [OF len] unfolding c0_def by blast
    have p1: "progressPerImage c1 = replicate (Suc idx) 100 @ replicate (length fs) 0"
      using len v Cons.prems(2)
      by (simp add: c1 on_complete_overall(2) list_update_append replicate_append_same)
    have o1: "overallPercent c1 = Math_round (js_div (of_int (sum_list (progressPerImage c1))) (of_nat n))"
      by (simp add: c1 on_complete_overall(1))
    have rest: "upload_loop be user n fs (Suc idx) (urls @ [url]) c1 w1 = (Inr urls', c', w')"
      using u Inr Cons.prems(1) by simp
    show ?thesis
    proof (cases "fs = []")
      case True
      then show ?thesis using rest p1 o1 by simp
    next
      case False
      then show ?thesis using Cons.IH [OF rest p1] by simp
    qed
  qed
qed

lemma all_tasks_complete_overall_100:
  assumes "upload_loop be user (length fs) fs 0 [] (prepared c) w = (Inr urls, c', w')"
    and "length fs = length (form_images (report c))" and "fs \<noteq> []"
  shows "progressPerImage c' = replicate (length fs) 100 \<and> overallPercent c' = 100"
proof -
  have p: "progressPerImage (prepared c) = replicate 0 100 @ replicate (length fs) 0"
    using assms(2) by (simp add: prepared_def)
  have r: "progressPerImage c' = replicate (length fs) 100"
      "overallPercent c' =
         Math_round (js_div (of_int (sum_list (progressPerImage c'))) (of_nat (length fs)))"
    using upload_loop_all_complete [OF assms(1) p] assms(3) by simp_all
  have n: "(of_nat (length fs) :: rat) \<noteq> 0"
    using assms(3) by simp
  have "sum_list (replicate (length fs) (100::int)) = 100 * int (length fs)"
    by (simp add: sum_list_replicate)
  moreover have "double (of_int 100) = of_int 100"
    by (intro double_of_int) simp_all
  ultimately have "overallPercent c' = Math_round (of_int 100)"
    using n by (simp add: r js_div_def)
  then have "overallPercent c' = 100"
    by (simp only: Math_round_of_int)
  then show ?thesis
    using r(1) by simp
qed

end
